theory Spec2Isabelle
  imports Main
begin

section \<open>Manufacturing: merging two bills of materials\<close>

text \<open>
  \<^verbatim>\<open>merge_bill_of_materials\<close> (apps/manufacturing/functions.py) works on Python
  dictionaries, which are objects: \<^verbatim>\<open>materials.append(item)\<close> stores a reference to the
  input dictionary and \<^verbatim>\<open>material['quantity'] += item['quantity']\<close> updates that object in
  place. The model therefore has an explicit store from addresses to dictionaries, and a
  bill of materials is a list of addresses. The keys \<^verbatim>\<open>'id'\<close> and \<^verbatim>\<open>'quantity'\<close> are the
  fields \<open>mat_id\<close> and \<open>quantity\<close>; every other key of the dictionary (name, volume, price,
  price_total, producible) lives in the extension part of the record and is never written.
\<close>

type_synonym ref = nat

record material =
  mat_id :: int
  name :: string
  quantity :: int

type_synonym 'a store = "ref \<Rightarrow> 'a material_scheme"

text \<open>The first inner loop: is there a dictionary in \<open>materials\<close> with the id of \<open>item\<close>?\<close>

fun is_in_materials :: "'a store \<Rightarrow> ref \<Rightarrow> ref list \<Rightarrow> bool" where
  "is_in_materials h item [] = False"
| "is_in_materials h item (m # ms) =
     (if mat_id (h m) = mat_id (h item) then True else is_in_materials h item ms)"

text \<open>The second inner loop: add the quantity of \<open>item\<close> to the first dictionary with its id,
  then \<^verbatim>\<open>break\<close>. The right-hand side reads \<open>item\<close> in the store as it is at that moment.\<close>

fun add_quantity :: "'a store \<Rightarrow> ref \<Rightarrow> ref list \<Rightarrow> 'a store" where
  "add_quantity h item [] = h"
| "add_quantity h item (m # ms) =
     (if mat_id (h m) = mat_id (h item)
      then h(m := (h m)\<lparr>quantity := quantity (h m) + quantity (h item)\<rparr>)
      else add_quantity h item ms)"

text \<open>One iteration of the outer loop over \<^verbatim>\<open>itertools.chain(materials1, materials2)\<close>.\<close>

definition merge_step :: "ref \<Rightarrow> 'a store \<times> ref list \<Rightarrow> 'a store \<times> ref list" where
  "merge_step item s =
     (case s of (h, materials) \<Rightarrow>
        if is_in_materials h item materials
        then (add_quantity h item materials, materials)
        else (h, materials @ [item]))"

definition merge_bill_of_materials ::
  "'a store \<Rightarrow> ref list \<Rightarrow> ref list \<Rightarrow> 'a store \<times> ref list" where
  "merge_bill_of_materials h materials1 materials2 =
     fold merge_step (materials1 @ materials2) (h, [])"

text \<open>The quantity the merged entry for id \<open>i\<close> should carry: the sum, in the store at call
  time, over all entries of the inputs with that id.\<close>

definition total_quantity :: "'a store \<Rightarrow> int \<Rightarrow> ref list \<Rightarrow> int" where
  "total_quantity h i rs = sum_list (map (\<lambda>r. quantity (h r)) (filter (\<lambda>r. mat_id (h r) = i) rs))"

text \<open>The entries that open a new line of the merged bill: the first entry of each id, in
  input order (\<open>seen\<close> holds the ids already met).\<close>

fun first_refs :: "'a store \<Rightarrow> int list \<Rightarrow> ref list \<Rightarrow> ref list" where
  "first_refs h seen [] = []"
| "first_refs h seen (r # rs) =
     (if mat_id (h r) \<in> set seen then first_refs h seen rs
      else r # first_refs h (seen @ [mat_id (h r)]) rs)"

text \<open>The loop invariant of the merge once the inputs \<open>xs\<close> have been consumed.\<close>

definition merge_inv :: "'a store \<Rightarrow> ref list \<Rightarrow> 'a store \<times> ref list \<Rightarrow> bool" where
  "merge_inv h xs s \<longleftrightarrow>
     (case s of (h', res) \<Rightarrow>
        set res \<subseteq> set xs \<and>
        distinct (map (\<lambda>r. mat_id (h r)) res) \<and>
        (\<lambda>r. mat_id (h r)) ` set res = (\<lambda>r. mat_id (h r)) ` set xs \<and>
        (\<forall>r. r \<notin> set res \<longrightarrow> h' r = h r) \<and>
        (\<forall>m \<in> set res. h' m = (h m)\<lparr>quantity := total_quantity h (mat_id (h m)) xs\<rparr>))"

text \<open>Example stores: one dictionary \<^verbatim>\<open>{'id': 1, 'name': 'Tritanium', 'quantity': 5}\<close> at every
  address, and three different dictionaries at the addresses 0, 1 and 2.\<close>

definition tritanium_store :: "unit store" where
  "tritanium_store = (\<lambda>r. \<lparr>mat_id = 1, name = ''Tritanium'', quantity = 5\<rparr>)"

definition mineral_store :: "unit store" where
  "mineral_store =
     (\<lambda>r. if r = 0 then \<lparr>mat_id = 34, name = ''Tritanium'', quantity = 5\<rparr>
          else if r = 1 then \<lparr>mat_id = 35, name = ''Pyerite'', quantity = 7\<rparr>
          else \<lparr>mat_id = 34, name = ''Tritanium'', quantity = 3\<rparr>)"

section \<open>API tasks: storage, remote service and errors\<close>

text \<open>
  The tasks of apps/api/tasks.py read and write Django models and call the remote service
  through \<^verbatim>\<open>eveapi\<close>. The model classes (apps/api/models.py) and \<^verbatim>\<open>eveapi\<close> are known by
  their use only, so the storage is an explicit state and the behaviour of the remote
  service and of \<^verbatim>\<open>save()\<close> are parameters of the model:
  \<^item> a table on which rows are deleted one by one is a list of rows with a primary key;
    \<^verbatim>\<open>save()\<close> of a new row appends it under the next key of the table's sequence;
  \<^item> \<^verbatim>\<open>Model.objects.get(...)\<close> on a unique key is a lookup in a map, \<^verbatim>\<open>DoesNotExist\<close>
    being \<open>None\<close>;
  \<^item> every exception the source can meet is a value; an exception no handler catches
    ends the run with \<open>Raised\<close>, and the storage as it is at that moment is kept (each
    \<^verbatim>\<open>save()\<close> and \<^verbatim>\<open>delete()\<close> is a statement of its own against the database).
  Columns holding floating-point amounts (price, amount, balance, tax_amount, escrow,
  points_per_day, remainder_points) are copied from the remote row without being read
  and are left out, as are the two tax columns of the journal, which go through
  \<^verbatim>\<open>cast_empty_string_to_int\<close> and \<^verbatim>\<open>cast_empty_string_to_float\<close>.
\<close>

record character =
  char_name :: string
  apikey_id :: "int option"

record apikey =
  keyid :: int
  vcode :: string
  is_valid :: bool

text \<open>A row of the remote wallet-transactions feed and the row \<open>MarketTransaction\<close> made of it.\<close>

record wallet_transaction =
  transactionDateTime :: int
  transactionID :: int
  typeID :: int
  transactionQuantity :: int
  clientID :: int
  clientName :: string
  stationID :: int
  transactionType :: string
  journalTransactionID :: int
  transactionFor :: string

record market_transaction =
  mt_pk :: nat
  mt_character :: int
  mt_date :: int
  transaction_id :: int
  invtype_id :: int
  mt_quantity :: int
  client_id :: int
  client_name :: string
  station_id :: int
  is_bid :: bool
  journal_transaction_id :: int
  is_corporate_transaction :: bool

text \<open>A row of the remote wallet-journal feed and the row \<open>JournalEntry\<close> made of it.\<close>

record journal_row =
  refID :: int
  journalDate :: int
  refTypeID :: int
  ownerName1 :: string
  ownerID1 :: int
  ownerName2 :: string
  ownerID2 :: int
  argName1 :: string
  argID1 :: int
  journalReason :: string

record journal_entry =
  je_pk :: nat
  ref_id :: int
  je_character :: int
  je_date :: int
  ref_type_id :: int
  owner_name_1 :: string
  owner_id_1 :: int
  owner_name_2 :: string
  owner_id_2 :: int
  arg_name_1 :: string
  arg_id_1 :: int
  je_reason :: string

text \<open>A research job of the remote sheet and the row \<open>Research\<close> made of it.\<close>

record research_job =
  agentID :: int
  skillTypeID :: int
  researchStartDate :: int

record research =
  rs_character :: int
  agent_id :: int
  skill_id :: int
  start_date :: int

text \<open>An order of the remote market-orders sheet, and the rows made of it: one in \<open>Orders\<close>
  (apps/market_data), keyed by the order id, and one in \<open>MarketOrder\<close>, which ties the order to
  the character. \<open>StaStation\<close> gives the region and the solar system of a station.\<close>

record market_order =
  orderID :: int
  orderStationID :: int
  orderTypeID :: int
  volRemaining :: int
  volEntered :: int
  minVolume :: int
  orderState :: int
  orderRange :: int
  accountKey :: int
  orderDuration :: int
  bid :: bool
  issued :: int

record station =
  st_region :: int
  st_solar_system :: int

record orders_row =
  generated_at :: int
  mapregion :: int
  o_invtype_id :: int
  volume_remaining :: int
  volume_entered :: int
  minimum_volume :: int
  order_range :: int
  o_is_bid :: bool
  issue_date :: int
  o_duration :: int
  stastation :: int
  mapsolarsystem :: int
  is_suspicious :: bool
  message_key :: string
  uploader_ip_hash :: string
  is_active :: bool

record character_order =
  mo_character :: int
  order_state :: int
  account_key :: int

text \<open>The storage. \<open>timers\<close> is the table \<open>APITimer\<close>: (character, apisheet) to nextupdate.\<close>

record db =
  characters :: "int \<rightharpoonup> character"
  apikeys :: "int \<rightharpoonup> apikey"
  timers :: "int \<times> string \<rightharpoonup> int"
  market_transactions :: "market_transaction list"
  mt_seq :: nat
  journal_entries :: "journal_entry list"
  je_seq :: nat
  researches :: "research list"
  stations :: "int \<rightharpoonup> station"
  orders :: "int \<rightharpoonup> orders_row"
  market_orders :: "int \<rightharpoonup> character_order"

text \<open>One answer of the remote service: the rowset (\<^verbatim>\<open>sheet.transactions\<close>,
  \<^verbatim>\<open>sheet.research\<close>) and \<^verbatim>\<open>sheet._meta.cachedUntil\<close>.\<close>

record 'r sheet =
  rows :: "'r list"
  cachedUntil :: int

datatype eveapi_error = AuthenticationError | TransientError

text \<open>The remote service as the walkers call it: credential, character, number of
  requests made before in this run, \<^verbatim>\<open>rowCount\<close>, \<^verbatim>\<open>fromID\<close>. It answers with a sheet or
  raises an \<^verbatim>\<open>eveapi.Error\<close>.\<close>

type_synonym 'r remote = "apikey \<Rightarrow> int \<Rightarrow> nat \<Rightarrow> nat \<Rightarrow> int option \<Rightarrow> eveapi_error + 'r sheet"

definition rowCount :: nat where
  "rowCount = 2560"

text \<open>What \<^verbatim>\<open>entry.save()\<close> does with a new row, given the storage: the row is stored, or one
  of the two exceptions the walkers have handlers for is raised and nothing is stored.\<close>

datatype save_outcome = Saved | IntegrityError | MultipleObjectsReturned

type_synonym 'row saving = "db \<Rightarrow> 'row \<Rightarrow> save_outcome"

datatype exn =
    EveapiError eveapi_error
  | DbIntegrityError
  | DbMultipleObjectsReturned
  | PyIndexError
  | DoesNotExist string

datatype outcome = SkippedNoCredential | AbortedApi eveapi_error | Done | Raised exn

text \<open>Every request of a run is logged with its cursor, the storage at that moment and the
  answer; the log is not part of the program, it is what the properties speak about.\<close>

record 'r fetch =
  cursor :: "int option"
  storage :: db
  response :: "eveapi_error + 'r sheet"

record 'r run_result =
  outcome :: outcome
  final_db :: db
  fetches :: "'r fetch list"

text \<open>\<^verbatim>\<open>APIKey.objects.get(id=character.apikey_id, is_valid=True)\<close>\<close>

definition valid_apikey :: "db \<Rightarrow> character \<Rightarrow> (int \<times> apikey) option" where
  "valid_apikey d ch =
     (case apikey_id ch of
        None \<Rightarrow> None
      | Some k \<Rightarrow>
          (case apikeys d k of
             None \<Rightarrow> None
           | Some key \<Rightarrow> if is_valid key then Some (k, key) else None))"

text \<open>Modelled from the spec: \<^verbatim>\<open>handle_api_exception\<close> (api_exceptions.py) is not among the
  sources. The spec makes it the credential invalidation handler, which receives the
  credential and the error and only decides whether to flip the validity flag of that
  credential; the decision is the parameter \<open>invalidates\<close>.\<close>

definition handle_api_exception :: "(eveapi_error \<Rightarrow> bool) \<Rightarrow> eveapi_error \<Rightarrow> int \<Rightarrow> db \<Rightarrow> db" where
  "handle_api_exception invalidates e k d =
     (if invalidates e
      then (case apikeys d k of
              None \<Rightarrow> d
            | Some key \<Rightarrow> d\<lparr>apikeys := (apikeys d)(k \<mapsto> key\<lparr>is_valid := False\<rparr>)\<rparr>)
      else d)"

section \<open>The wallet-transactions walker\<close>

text \<open>\<^verbatim>\<open>MarketTransaction(character=character, date=..., ...)\<close> for a remote row.\<close>

definition new_market_transaction :: "int \<Rightarrow> wallet_transaction \<Rightarrow> market_transaction" where
  "new_market_transaction c t =
     \<lparr>mt_pk = 0,
      mt_character = c,
      mt_date = transactionDateTime t,
      transaction_id = transactionID t,
      invtype_id = typeID t,
      mt_quantity = transactionQuantity t,
      client_id = clientID t,
      client_name = clientName t,
      station_id = stationID t,
      is_bid = (transactionType t = ''buy''),
      journal_transaction_id = journalTransactionID t,
      is_corporate_transaction = (transactionFor t = ''corporation'')\<rparr>"

text \<open>A successful \<^verbatim>\<open>entry.save()\<close>: the row gets the next primary key.\<close>

definition insert_market_transaction :: "market_transaction \<Rightarrow> db \<Rightarrow> db" where
  "insert_market_transaction r d =
     d\<lparr>market_transactions := market_transactions d @ [r\<lparr>mt_pk := mt_seq d\<rparr>],
       mt_seq := Suc (mt_seq d)\<rparr>"

text \<open>\<^verbatim>\<open>duplicate.delete()\<close>: the row with that primary key goes.\<close>

definition delete_market_transaction :: "market_transaction \<Rightarrow> db \<Rightarrow> db" where
  "delete_market_transaction r d =
     d\<lparr>market_transactions := filter (\<lambda>x. mt_pk x \<noteq> mt_pk r) (market_transactions d)\<rparr>"

text \<open>\<^verbatim>\<open>MarketTransaction.objects.filter(character=character)\<close>\<close>

definition character_transactions :: "int \<Rightarrow> db \<Rightarrow> market_transaction list" where
  "character_transactions c d = filter (\<lambda>r. mt_character r = c) (market_transactions d)"

text \<open>\<^verbatim>\<open>existing_entries\<close>: the query is run by the first membership test of the page, before
  anything of the page is stored, and its result is kept for the whole page.\<close>

definition existing_transaction_ids :: "int \<Rightarrow> db \<Rightarrow> int list" where
  "existing_transaction_ids c d = map journal_transaction_id (character_transactions c d)"

text \<open>The \<^verbatim>\<open>for\<close> loop over one page, inside the \<^verbatim>\<open>try\<close> whose handler catches
  \<^verbatim>\<open>MultipleObjectsReturned\<close>. The result is the value of \<^verbatim>\<open>walking\<close>, the storage, and the
  transaction at which \<^verbatim>\<open>MultipleObjectsReturned\<close> left the loop, if it did.\<close>

fun process_transactions ::
  "market_transaction saving \<Rightarrow> int \<Rightarrow> int list \<Rightarrow> wallet_transaction list \<Rightarrow> bool \<Rightarrow> db
     \<Rightarrow> bool \<times> db \<times> wallet_transaction option" where
  "process_transactions sv c existing [] walking d = (walking, d, None)"
| "process_transactions sv c existing (t # ts) walking d =
     (if journalTransactionID t \<in> set existing
      then process_transactions sv c existing ts False d
      else (case sv d (new_market_transaction c t) of
              Saved \<Rightarrow>
                process_transactions sv c existing ts walking
                  (insert_market_transaction (new_market_transaction c t) d)
            | IntegrityError \<Rightarrow> process_transactions sv c existing ts walking d
            | MultipleObjectsReturned \<Rightarrow> (walking, d, Some t)))"

text \<open>The handler: \<^verbatim>\<open>duplicates = ...filter(journal_transaction_id=..., character=character)\<close>,
  then \<^verbatim>\<open>for duplicate in duplicates[1:]: duplicate.delete()\<close>.\<close>

definition remove_duplicate_transactions :: "int \<Rightarrow> wallet_transaction \<Rightarrow> db \<Rightarrow> db" where
  "remove_duplicate_transactions c t d =
     fold delete_market_transaction
       (drop 1 (filter (\<lambda>r. journal_transaction_id r = journalTransactionID t \<and> mt_character r = c)
                  (market_transactions d)))
       d"

text \<open>\<^verbatim>\<open>...filter(character=character).order_by('date')[:1][0]\<close>; \<open>None\<close> is the
  \<^verbatim>\<open>IndexError\<close> of an empty result.\<close>

definition oldest_transaction :: "int \<Rightarrow> db \<Rightarrow> market_transaction option" where
  "oldest_transaction c d =
     (case sort_key mt_date (character_transactions c d) of
        [] \<Rightarrow> None
      | r # _ \<Rightarrow> Some r)"

text \<open>One page of the \<^verbatim>\<open>while walking\<close> loop up to the decision about the next page:
  the page loop and, if it was left by \<^verbatim>\<open>MultipleObjectsReturned\<close>, the handler.\<close>

definition reconcile_transactions ::
  "market_transaction saving \<Rightarrow> int \<Rightarrow> wallet_transaction list \<Rightarrow> db \<Rightarrow> bool \<times> db" where
  "reconcile_transactions sv c page d =
     (case process_transactions sv c (existing_transaction_ids c d) page True d of
        (walking, d1, None) \<Rightarrow> (walking, d1)
      | (walking, d1, Some t) \<Rightarrow> (walking, remove_duplicate_transactions c t d1))"

text \<open>The \<^verbatim>\<open>while walking\<close> loop. Nothing bounds the number of pages the remote service
  may hand out, so the loop carries fuel and \<open>None\<close> means that it ran out. The result is
  the exception that left the loop (if any), the last sheet, the storage and the log.\<close>

fun walk_transactions ::
  "nat \<Rightarrow> wallet_transaction remote \<Rightarrow> market_transaction saving \<Rightarrow> apikey \<Rightarrow> int
     \<Rightarrow> wallet_transaction sheet \<Rightarrow> db \<Rightarrow> wallet_transaction fetch list
     \<Rightarrow> (exn option \<times> wallet_transaction sheet \<times> db \<times> wallet_transaction fetch list) option" where
  "walk_transactions 0 api sv key c sh d log = None"
| "walk_transactions (Suc n) api sv key c sh d log =
     (if rows sh \<noteq> []
      then (case reconcile_transactions sv c (rows sh) d of
              (walking, d2) \<Rightarrow>
                if walking
                then (case oldest_transaction c d2 of
                        None \<Rightarrow> Some (None, sh, d2, log)
                      | Some r \<Rightarrow>
                          (case api key c (length log) rowCount (Some (journal_transaction_id r)) of
                             Inl e \<Rightarrow>
                               Some (Some (EveapiError e), sh, d2,
                                 log @ [\<lparr>cursor = Some (journal_transaction_id r), storage = d2,
                                          response = Inl e\<rparr>])
                           | Inr sh' \<Rightarrow>
                               walk_transactions n api sv key c sh' d2
                                 (log @ [\<lparr>cursor = Some (journal_transaction_id r), storage = d2,
                                          response = Inr sh'\<rparr>])))
                else Some (None, sh, d2, log))
      else Some (None, sh, d, log))"

text \<open>\<^verbatim>\<open>timer = APITimer.objects.get(character=character, apisheet=...)\<close>, then
  \<^verbatim>\<open>timer.nextupdate = ...cachedUntil\<close> and \<^verbatim>\<open>timer.save()\<close>.\<close>

definition update_timer :: "int \<Rightarrow> string \<Rightarrow> int \<Rightarrow> db \<Rightarrow> exn + db" where
  "update_timer c apisheet until d =
     (case timers d (c, apisheet) of
        None \<Rightarrow> Inl (DoesNotExist ''APITimer'')
      | Some _ \<Rightarrow> Inr (d\<lparr>timers := (timers d)((c, apisheet) \<mapsto> until)\<rparr>))"

text \<open>What follows the loop, for both wallet walkers: an exception that left the loop ends
  the run, otherwise the timer is updated from the sheet fetched last.\<close>

definition finish_walk ::
  "int \<Rightarrow> string \<Rightarrow> (exn option \<times> 'r sheet \<times> db \<times> 'r fetch list) \<Rightarrow> 'r run_result" where
  "finish_walk c apisheet w =
     (case w of
        (Some ex, sh, d, log) \<Rightarrow> \<lparr>outcome = Raised ex, final_db = d, fetches = log\<rparr>
      | (None, sh, d, log) \<Rightarrow>
          (case update_timer c apisheet (cachedUntil sh) d of
             Inl ex \<Rightarrow> \<lparr>outcome = Raised ex, final_db = d, fetches = log\<rparr>
           | Inr d' \<Rightarrow> \<lparr>outcome = Done, final_db = d', fetches = log\<rparr>))"

text \<open>\<^verbatim>\<open>ProcessWalletTransactionsCharacter.run(character_id)\<close>\<close>

definition run_wallet_transactions ::
  "nat \<Rightarrow> wallet_transaction remote \<Rightarrow> market_transaction saving \<Rightarrow> (eveapi_error \<Rightarrow> bool)
     \<Rightarrow> int \<Rightarrow> db \<Rightarrow> wallet_transaction run_result option" where
  "run_wallet_transactions fuel api sv invalidates character_id d =
     (case characters d character_id of
        None \<Rightarrow> Some \<lparr>outcome = Raised (DoesNotExist ''Character''), final_db = d, fetches = []\<rparr>
      | Some ch \<Rightarrow>
          (case valid_apikey d ch of
             None \<Rightarrow> Some \<lparr>outcome = SkippedNoCredential, final_db = d, fetches = []\<rparr>
           | Some (k, key) \<Rightarrow>
               (case api key character_id 0 rowCount None of
                  Inl e \<Rightarrow>
                    Some \<lparr>outcome = AbortedApi e,
                          final_db = handle_api_exception invalidates e k d,
                          fetches = [\<lparr>cursor = None, storage = d, response = Inl e\<rparr>]\<rparr>
                | Inr sh \<Rightarrow>
                    map_option (finish_walk character_id ''WalletTransactions'')
                      (walk_transactions fuel api sv key character_id sh d
                         [\<lparr>cursor = None, storage = d, response = Inr sh\<rparr>]))))"

section \<open>The wallet-journal walker\<close>

text \<open>\<^verbatim>\<open>JournalEntry(ref_id=transaction.refID, character=character, ...)\<close> for a remote row.\<close>

definition new_journal_entry :: "int \<Rightarrow> journal_row \<Rightarrow> journal_entry" where
  "new_journal_entry c t =
     \<lparr>je_pk = 0,
      ref_id = refID t,
      je_character = c,
      je_date = journalDate t,
      ref_type_id = refTypeID t,
      owner_name_1 = ownerName1 t,
      owner_id_1 = ownerID1 t,
      owner_name_2 = ownerName2 t,
      owner_id_2 = ownerID2 t,
      arg_name_1 = argName1 t,
      arg_id_1 = argID1 t,
      je_reason = journalReason t\<rparr>"

definition insert_journal_entry :: "journal_entry \<Rightarrow> db \<Rightarrow> db" where
  "insert_journal_entry r d =
     d\<lparr>journal_entries := journal_entries d @ [r\<lparr>je_pk := je_seq d\<rparr>],
       je_seq := Suc (je_seq d)\<rparr>"

definition delete_journal_entry :: "journal_entry \<Rightarrow> db \<Rightarrow> db" where
  "delete_journal_entry r d =
     d\<lparr>journal_entries := filter (\<lambda>x. je_pk x \<noteq> je_pk r) (journal_entries d)\<rparr>"

definition character_entries :: "int \<Rightarrow> db \<Rightarrow> journal_entry list" where
  "character_entries c d = filter (\<lambda>r. je_character r = c) (journal_entries d)"

definition existing_ref_ids :: "int \<Rightarrow> db \<Rightarrow> int list" where
  "existing_ref_ids c d = map ref_id (character_entries c d)"

definition remove_duplicate_entries :: "int \<Rightarrow> journal_row \<Rightarrow> db \<Rightarrow> db" where
  "remove_duplicate_entries c t d =
     fold delete_journal_entry
       (drop 1 (filter (\<lambda>r. ref_id r = refID t \<and> je_character r = c) (journal_entries d)))
       d"

text \<open>The \<^verbatim>\<open>for\<close> loop over one page. Here the \<^verbatim>\<open>try\<close> is inside the loop, so after the
  handler the loop goes on; there is no handler for \<^verbatim>\<open>IntegrityError\<close>, which leaves the
  loop and the run.\<close>

fun process_journal ::
  "journal_entry saving \<Rightarrow> int \<Rightarrow> int list \<Rightarrow> journal_row list \<Rightarrow> bool \<Rightarrow> db
     \<Rightarrow> bool \<times> db \<times> exn option" where
  "process_journal sv c existing [] walking d = (walking, d, None)"
| "process_journal sv c existing (t # ts) walking d =
     (if refID t \<in> set existing
      then process_journal sv c existing ts False d
      else (case sv d (new_journal_entry c t) of
              Saved \<Rightarrow>
                process_journal sv c existing ts walking
                  (insert_journal_entry (new_journal_entry c t) d)
            | IntegrityError \<Rightarrow> (walking, d, Some DbIntegrityError)
            | MultipleObjectsReturned \<Rightarrow>
                process_journal sv c existing ts walking (remove_duplicate_entries c t d)))"

text \<open>\<^verbatim>\<open>...filter(character=character).order_by('date')[:1][0]\<close>; the \<^verbatim>\<open>IndexError\<close> of an
  empty result has no handler in this walker.\<close>

definition oldest_entry :: "int \<Rightarrow> db \<Rightarrow> journal_entry option" where
  "oldest_entry c d =
     (case sort_key je_date (character_entries c d) of
        [] \<Rightarrow> None
      | r # _ \<Rightarrow> Some r)"

fun walk_journal ::
  "nat \<Rightarrow> journal_row remote \<Rightarrow> journal_entry saving \<Rightarrow> apikey \<Rightarrow> int
     \<Rightarrow> journal_row sheet \<Rightarrow> db \<Rightarrow> journal_row fetch list
     \<Rightarrow> (exn option \<times> journal_row sheet \<times> db \<times> journal_row fetch list) option" where
  "walk_journal 0 api sv key c sh d log = None"
| "walk_journal (Suc n) api sv key c sh d log =
     (if rows sh \<noteq> []
      then (case process_journal sv c (existing_ref_ids c d) (rows sh) True d of
              (walking, d2, Some ex) \<Rightarrow> Some (Some ex, sh, d2, log)
            | (walking, d2, None) \<Rightarrow>
                if walking
                then (case oldest_entry c d2 of
                        None \<Rightarrow> Some (Some PyIndexError, sh, d2, log)
                      | Some r \<Rightarrow>
                          (case api key c (length log) rowCount (Some (ref_id r)) of
                             Inl e \<Rightarrow>
                               Some (Some (EveapiError e), sh, d2,
                                 log @ [\<lparr>cursor = Some (ref_id r), storage = d2,
                                          response = Inl e\<rparr>])
                           | Inr sh' \<Rightarrow>
                               walk_journal n api sv key c sh' d2
                                 (log @ [\<lparr>cursor = Some (ref_id r), storage = d2,
                                          response = Inr sh'\<rparr>])))
                else Some (None, sh, d2, log))
      else Some (None, sh, d, log))"

text \<open>\<^verbatim>\<open>ProcessWalletJournalCharacter.run(character_id)\<close>\<close>

definition run_wallet_journal ::
  "nat \<Rightarrow> journal_row remote \<Rightarrow> journal_entry saving \<Rightarrow> (eveapi_error \<Rightarrow> bool)
     \<Rightarrow> int \<Rightarrow> db \<Rightarrow> journal_row run_result option" where
  "run_wallet_journal fuel api sv invalidates character_id d =
     (case characters d character_id of
        None \<Rightarrow> Some \<lparr>outcome = Raised (DoesNotExist ''Character''), final_db = d, fetches = []\<rparr>
      | Some ch \<Rightarrow>
          (case valid_apikey d ch of
             None \<Rightarrow> Some \<lparr>outcome = SkippedNoCredential, final_db = d, fetches = []\<rparr>
           | Some (k, key) \<Rightarrow>
               (case api key character_id 0 rowCount None of
                  Inl e \<Rightarrow>
                    Some \<lparr>outcome = AbortedApi e,
                          final_db = handle_api_exception invalidates e k d,
                          fetches = [\<lparr>cursor = None, storage = d, response = Inl e\<rparr>]\<rparr>
                | Inr sh \<Rightarrow>
                    map_option (finish_walk character_id ''WalletJournal'')
                      (walk_journal fuel api sv key character_id sh d
                         [\<lparr>cursor = None, storage = d, response = Inr sh\<rparr>]))))"

section \<open>The research task\<close>

text \<open>\<^verbatim>\<open>Research(character=character, agent_id=job.agentID, ...)\<close>\<close>

definition new_research :: "int \<Rightarrow> research_job \<Rightarrow> research" where
  "new_research c j =
     \<lparr>rs_character = c,
      agent_id = agentID j,
      skill_id = skillTypeID j,
      start_date = researchStartDate j\<rparr>"

text \<open>\<^verbatim>\<open>for job in sheet.research: ... new_job.save()\<close>; no exception is handled here.\<close>

fun save_jobs :: "research saving \<Rightarrow> int \<Rightarrow> research_job list \<Rightarrow> db \<Rightarrow> exn option \<times> db" where
  "save_jobs sv c [] d = (None, d)"
| "save_jobs sv c (j # js) d =
     (case sv d (new_research c j) of
        Saved \<Rightarrow> save_jobs sv c js (d\<lparr>researches := researches d @ [new_research c j]\<rparr>)
      | IntegrityError \<Rightarrow> (Some DbIntegrityError, d)
      | MultipleObjectsReturned \<Rightarrow> (Some DbMultipleObjectsReturned, d))"

text \<open>\<^verbatim>\<open>Research.objects.filter(character=character).delete()\<close>\<close>

definition delete_research :: "int \<Rightarrow> db \<Rightarrow> db" where
  "delete_research c d = d\<lparr>researches := filter (\<lambda>r. rs_character r \<noteq> c) (researches d)\<rparr>"

text \<open>\<^verbatim>\<open>ProcessResearchCharacter.run(character_id)\<close>; \<^verbatim>\<open>me.Research()\<close> takes no cursor, so the
  remote service is a function of the credential and the character.\<close>

definition run_research ::
  "(apikey \<Rightarrow> int \<Rightarrow> eveapi_error + research_job sheet) \<Rightarrow> research saving
     \<Rightarrow> (eveapi_error \<Rightarrow> bool) \<Rightarrow> int \<Rightarrow> db \<Rightarrow> research_job run_result" where
  "run_research api sv invalidates character_id d =
     (case characters d character_id of
        None \<Rightarrow> \<lparr>outcome = Raised (DoesNotExist ''Character''), final_db = d, fetches = []\<rparr>
      | Some ch \<Rightarrow>
          (case valid_apikey d ch of
             None \<Rightarrow> \<lparr>outcome = SkippedNoCredential, final_db = d, fetches = []\<rparr>
           | Some (k, key) \<Rightarrow>
               (case api key character_id of
                  Inl e \<Rightarrow>
                    \<lparr>outcome = AbortedApi e,
                     final_db = handle_api_exception invalidates e k d,
                     fetches = [\<lparr>cursor = None, storage = d, response = Inl e\<rparr>]\<rparr>
                | Inr sh \<Rightarrow>
                    (case save_jobs sv character_id (rows sh) (delete_research character_id d) of
                       (Some ex, d') \<Rightarrow>
                         \<lparr>outcome = Raised ex, final_db = d',
                          fetches = [\<lparr>cursor = None, storage = d, response = Inr sh\<rparr>]\<rparr>
                     | (None, d') \<Rightarrow>
                         (case update_timer character_id ''Research'' (cachedUntil sh) d' of
                            Inl ex \<Rightarrow>
                              \<lparr>outcome = Raised ex, final_db = d',
                               fetches = [\<lparr>cursor = None, storage = d, response = Inr sh\<rparr>]\<rparr>
                          | Inr d'' \<Rightarrow>
                              \<lparr>outcome = Done, final_db = d'',
                               fetches = [\<lparr>cursor = None, storage = d, response = Inr sh\<rparr>]\<rparr>)))))"

section \<open>The market-orders task\<close>

text \<open>\<^verbatim>\<open>Orders(id=order.orderID, generated_at=..., mapregion=region, ...)\<close>; \<open>now\<close> is the
  reading of \<^verbatim>\<open>datetime.datetime.utcnow()\<close>.\<close>

definition new_order :: "int \<Rightarrow> station \<Rightarrow> market_order \<Rightarrow> orders_row" where
  "new_order now st ord =
     \<lparr>generated_at = now,
      mapregion = st_region st,
      o_invtype_id = orderTypeID ord,
      volume_remaining = volRemaining ord,
      volume_entered = volEntered ord,
      minimum_volume = minVolume ord,
      order_range = orderRange ord,
      o_is_bid = bid ord,
      issue_date = issued ord,
      o_duration = orderDuration ord,
      stastation = orderStationID ord,
      mapsolarsystem = st_solar_system st,
      is_suspicious = False,
      message_key = ''eveapi'',
      uploader_ip_hash = ''eveapi'',
      is_active = True\<rparr>"

text \<open>The branch that found the order in \<open>Orders\<close> and updates it.\<close>

definition refresh_order :: "int \<Rightarrow> market_order \<Rightarrow> orders_row \<Rightarrow> orders_row" where
  "refresh_order now ord row =
     row\<lparr>generated_at := now,
         volume_remaining := volRemaining ord,
         volume_entered := volEntered ord,
         is_suspicious := False,
         is_active := (orderState ord = 0)\<rparr>"

text \<open>The second half of the loop body: update the \<open>MarketOrder\<close> of the order, or create it.\<close>

definition save_character_order :: "int \<Rightarrow> market_order \<Rightarrow> db \<Rightarrow> db" where
  "save_character_order c ord d =
     (case market_orders d (orderID ord) of
        Some mo \<Rightarrow>
          d\<lparr>market_orders := (market_orders d)(orderID ord \<mapsto> mo\<lparr>order_state := orderState ord\<rparr>)\<rparr>
      | None \<Rightarrow>
          d\<lparr>market_orders := (market_orders d)(orderID ord \<mapsto>
               \<lparr>mo_character = c, order_state = orderState ord, account_key = accountKey ord\<rparr>)\<rparr>)"

text \<open>\<^verbatim>\<open>for order in orders.orders\<close>. The clock is read once per order (\<open>clock i\<close> for the
  order at position \<open>i\<close>). A station that is not in \<open>StaStation\<close> raises \<^verbatim>\<open>DoesNotExist\<close>, which
  nothing catches; an \<^verbatim>\<open>IntegrityError\<close> on the new \<open>Orders\<close> row is logged and the loop
  continues with the next order.\<close>

fun import_orders ::
  "orders_row saving \<Rightarrow> (nat \<Rightarrow> int) \<Rightarrow> int \<Rightarrow> nat \<Rightarrow> market_order list \<Rightarrow> db \<Rightarrow> exn option \<times> db" where
  "import_orders sv clock c i [] d = (None, d)"
| "import_orders sv clock c i (ord # rest) d =
     (case orders d (orderID ord) of
        Some row \<Rightarrow>
          import_orders sv clock c (Suc i) rest
            (save_character_order c ord
               (d\<lparr>orders := (orders d)(orderID ord \<mapsto> refresh_order (clock i) ord row)\<rparr>))
      | None \<Rightarrow>
          (case stations d (orderStationID ord) of
             None \<Rightarrow> (Some (DoesNotExist ''StaStation''), d)
           | Some st \<Rightarrow>
               (case sv d (new_order (clock i) st ord) of
                  Saved \<Rightarrow>
                    import_orders sv clock c (Suc i) rest
                      (save_character_order c ord
                         (d\<lparr>orders := (orders d)(orderID ord \<mapsto> new_order (clock i) st ord)\<rparr>))
                | IntegrityError \<Rightarrow> import_orders sv clock c (Suc i) rest d
                | MultipleObjectsReturned \<Rightarrow> (Some DbMultipleObjectsReturned, d))))"

text \<open>\<^verbatim>\<open>ProcessMarketOrdersCharacter.run(character_id)\<close>; \<^verbatim>\<open>me.MarketOrders()\<close> takes no
  cursor.\<close>

definition run_market_orders ::
  "(apikey \<Rightarrow> int \<Rightarrow> eveapi_error + market_order sheet) \<Rightarrow> orders_row saving \<Rightarrow> (nat \<Rightarrow> int)
     \<Rightarrow> (eveapi_error \<Rightarrow> bool) \<Rightarrow> int \<Rightarrow> db \<Rightarrow> market_order run_result" where
  "run_market_orders api sv clock invalidates character_id d =
     (case characters d character_id of
        None \<Rightarrow> \<lparr>outcome = Raised (DoesNotExist ''Character''), final_db = d, fetches = []\<rparr>
      | Some ch \<Rightarrow>
          (case valid_apikey d ch of
             None \<Rightarrow> \<lparr>outcome = SkippedNoCredential, final_db = d, fetches = []\<rparr>
           | Some (k, key) \<Rightarrow>
               (case api key character_id of
                  Inl e \<Rightarrow>
                    \<lparr>outcome = AbortedApi e,
                     final_db = handle_api_exception invalidates e k d,
                     fetches = [\<lparr>cursor = None, storage = d, response = Inl e\<rparr>]\<rparr>
                | Inr sh \<Rightarrow>
                    (case import_orders sv clock character_id 0 (rows sh) d of
                       (ex, d') \<Rightarrow>
                         finish_walk character_id ''MarketOrders''
                           (ex, sh, d', [\<lparr>cursor = None, storage = d, response = Inr sh\<rparr>])))))"

section \<open>Vocabulary of the properties\<close>

text \<open>
  What a walker leaves alone (\<open>mt_frame\<close>, \<open>je_frame\<close>), the well-formedness of a table
  (primary keys are distinct and below the sequence), the keys (character, remote id) a
  table holds, and the relation between two consecutive requests of a run.
\<close>

text \<open>Everything but the table \<open>MarketTransaction\<close> and its sequence is the same.\<close>

definition mt_frame :: "db \<Rightarrow> db \<Rightarrow> bool" where
  "mt_frame d d' \<longleftrightarrow>
     characters d' = characters d \<and> apikeys d' = apikeys d \<and> timers d' = timers d \<and>
     journal_entries d' = journal_entries d \<and> je_seq d' = je_seq d \<and>
     researches d' = researches d \<and> stations d' = stations d \<and> orders d' = orders d \<and>
     market_orders d' = market_orders d"

text \<open>Everything but the table \<open>JournalEntry\<close> and its sequence is the same.\<close>

definition je_frame :: "db \<Rightarrow> db \<Rightarrow> bool" where
  "je_frame d d' \<longleftrightarrow>
     characters d' = characters d \<and> apikeys d' = apikeys d \<and> timers d' = timers d \<and>
     market_transactions d' = market_transactions d \<and> mt_seq d' = mt_seq d \<and>
     researches d' = researches d \<and> stations d' = stations d \<and> orders d' = orders d \<and>
     market_orders d' = market_orders d"

definition wf_transactions :: "db \<Rightarrow> bool" where
  "wf_transactions d \<longleftrightarrow>
     distinct (map mt_pk (market_transactions d)) \<and>
     (\<forall>r \<in> set (market_transactions d). mt_pk r < mt_seq d)"

definition wf_journal :: "db \<Rightarrow> bool" where
  "wf_journal d \<longleftrightarrow>
     distinct (map je_pk (journal_entries d)) \<and>
     (\<forall>r \<in> set (journal_entries d). je_pk r < je_seq d)"

definition transaction_keys :: "db \<Rightarrow> (int \<times> int) set" where
  "transaction_keys d =
     (\<lambda>r. (mt_character r, journal_transaction_id r)) ` set (market_transactions d)"

definition journal_keys :: "db \<Rightarrow> (int \<times> int) set" where
  "journal_keys d = (\<lambda>r. (je_character r, ref_id r)) ` set (journal_entries d)"

text \<open>Request \<open>g\<close> follows request \<open>f\<close>: \<open>f\<close> was answered with a page that is not empty,
  reconciling that page on the storage of \<open>f\<close> left \<open>walking\<close> true, and gave the storage
  at the time of \<open>g\<close>.\<close>

definition transactions_link ::
  "market_transaction saving \<Rightarrow> int \<Rightarrow> wallet_transaction fetch \<Rightarrow> wallet_transaction fetch \<Rightarrow> bool" where
  "transactions_link sv c f g \<longleftrightarrow>
     (case response f of
        Inl e \<Rightarrow> False
      | Inr sh \<Rightarrow> rows sh \<noteq> [] \<and> reconcile_transactions sv c (rows sh) (storage f) = (True, storage g))"

definition journal_link ::
  "journal_entry saving \<Rightarrow> int \<Rightarrow> journal_row fetch \<Rightarrow> journal_row fetch \<Rightarrow> bool" where
  "journal_link sv c f g \<longleftrightarrow>
     (case response f of
        Inl e \<Rightarrow> False
      | Inr sh \<Rightarrow>
          rows sh \<noteq> [] \<and>
          process_journal sv c (existing_ref_ids c (storage f)) (rows sh) True (storage f)
            = (True, storage g, None))"

text \<open>The ways the last page of a walk over the transactions ends the loop: it is empty, or
  \<open>walking\<close> became false, or no stored row gives a cursor.\<close>

definition transactions_last_page ::
  "market_transaction saving \<Rightarrow> int \<Rightarrow> wallet_transaction sheet \<Rightarrow> db \<Rightarrow> db \<Rightarrow> bool" where
  "transactions_last_page sv c sh d d' \<longleftrightarrow>
     (if rows sh = [] then d' = d
      else reconcile_transactions sv c (rows sh) d = (False, d')
         \<or> reconcile_transactions sv c (rows sh) d = (True, d') \<and> oldest_transaction c d' = None)"





text \<open>The remote ids stored, in table order.\<close>

definition transaction_ids :: "db \<Rightarrow> int list" where
  "transaction_ids d = map journal_transaction_id (market_transactions d)"

definition journal_ids :: "db \<Rightarrow> int list" where
  "journal_ids d = map ref_id (journal_entries d)"

section \<open>Example storages, remote services and runs\<close>

text \<open>
  One character (id 1) with one API key; \<open>history_db\<close> holds two transactions and two journal
  entries of earlier runs, with the remote ids 100 and 101. The remote services hand out given
  pages (\<open>pages_api\<close>), fail at a given request (\<open>failing_api\<close>), or serve a feed by cursor
  (\<open>feed_api\<close>: the rows that follow the row with the id \<^verbatim>\<open>fromID\<close>, at most \<open>cap\<close> of them).
\<close>

definition pilot :: character where
  "pilot = \<lparr>char_name = ''Pilot'', apikey_id = Some 7\<rparr>"

definition pilot_key :: apikey where
  "pilot_key = \<lparr>keyid = 7, vcode = ''secret'', is_valid = True\<rparr>"

definition base_db :: db where
  "base_db =
     \<lparr>characters = [1 \<mapsto> pilot],
      apikeys = [7 \<mapsto> pilot_key],
      timers = [(1, ''WalletTransactions'') \<mapsto> 10, (1, ''WalletJournal'') \<mapsto> 10,
                (1, ''Research'') \<mapsto> 10],
      market_transactions = [],
      mt_seq = 0,
      journal_entries = [],
      je_seq = 0,
      researches = [],
      stations = Map.empty,
      orders = Map.empty,
      market_orders = Map.empty\<rparr>"

definition keyless_db :: db where
  "keyless_db = base_db\<lparr>apikeys := [7 \<mapsto> pilot_key\<lparr>is_valid := False\<rparr>]\<rparr>"

text \<open>Remote rows: id, date and type.\<close>

definition txn :: "int \<Rightarrow> int \<Rightarrow> int \<Rightarrow> wallet_transaction" where
  "txn i t ty =
     \<lparr>transactionDateTime = t, transactionID = i, typeID = ty, transactionQuantity = 1,
      clientID = 9, clientName = ''Client'', stationID = 60003760, transactionType = ''buy'',
      journalTransactionID = i, transactionFor = ''personal''\<rparr>"

definition jrow :: "int \<Rightarrow> int \<Rightarrow> int \<Rightarrow> journal_row" where
  "jrow i t ty =
     \<lparr>refID = i, journalDate = t, refTypeID = ty, ownerName1 = ''Pilot'', ownerID1 = 1,
      ownerName2 = ''Client'', ownerID2 = 9, argName1 = '''', argID1 = 0, journalReason = ''''\<rparr>"

definition history_db :: db where
  "history_db =
     base_db\<lparr>market_transactions :=
               [(new_market_transaction 1 (txn 100 1000 34))\<lparr>mt_pk := 0\<rparr>,
                (new_market_transaction 1 (txn 101 1001 34))\<lparr>mt_pk := 1\<rparr>],
             mt_seq := 2,
             journal_entries :=
               [(new_journal_entry 1 (jrow 100 1000 10))\<lparr>je_pk := 0\<rparr>,
                (new_journal_entry 1 (jrow 101 1001 10))\<lparr>je_pk := 1\<rparr>],
             je_seq := 2\<rparr>"

definition pages_api :: "'r list list \<Rightarrow> 'r remote" where
  "pages_api ps key c n rc cur =
     Inr \<lparr>rows = (if n < length ps then ps ! n else []), cachedUntil = 1000 + int n\<rparr>"

definition failing_api :: "'r list list \<Rightarrow> nat \<Rightarrow> 'r remote" where
  "failing_api ps k key c n rc cur =
     (if n = k then Inl TransientError else pages_api ps key c n rc cur)"

definition feed_api :: "('r \<Rightarrow> int) \<Rightarrow> nat \<Rightarrow> 'r list \<Rightarrow> 'r remote" where
  "feed_api ident cap feed key c n rc cur =
     Inr \<lparr>rows = take (min rc cap)
                  (case cur of
                     None \<Rightarrow> feed
                   | Some i \<Rightarrow> drop 1 (dropWhile (\<lambda>t. ident t \<noteq> i) feed)),
          cachedUntil = 1000 + int n\<rparr>"

text \<open>Stores: one that accepts every row; two that raise \<^verbatim>\<open>IntegrityError\<close> on a row of the
  unknown type 0; two that raise \<^verbatim>\<open>MultipleObjectsReturned\<close> once two rows with the id of the
  new row are stored.\<close>

definition accept_all :: "'row saving" where
  "accept_all d r = Saved"

definition sde_outdated :: "market_transaction saving" where
  "sde_outdated d r = (if invtype_id r = 0 then IntegrityError else Saved)"

definition ref_types_outdated :: "journal_entry saving" where
  "ref_types_outdated d r = (if ref_type_id r = 0 then IntegrityError else Saved)"

definition twice_stored_transaction :: "market_transaction saving" where
  "twice_stored_transaction d r =
     (if 2 \<le> length (filter (\<lambda>x. journal_transaction_id x = journal_transaction_id r
                                   \<and> mt_character x = mt_character r) (market_transactions d))
      then MultipleObjectsReturned else Saved)"

definition twice_stored_entry :: "journal_entry saving" where
  "twice_stored_entry d r =
     (if 2 \<le> length (filter (\<lambda>x. ref_id x = ref_id r \<and> je_character x = je_character r)
                        (journal_entries d))
      then MultipleObjectsReturned else Saved)"

definition never_invalidate :: "eveapi_error \<Rightarrow> bool" where
  "never_invalidate e = False"

text \<open>Runs over one page of two new records, followed by an empty page.\<close>

definition fresh_transactions_run :: "wallet_transaction run_result option" where
  "fresh_transactions_run =
     run_wallet_transactions 3 (pages_api [[txn 103 1003 34, txn 102 1002 34]]) accept_all
       never_invalidate 1 history_db"

definition fresh_journal_run :: "journal_row run_result option" where
  "fresh_journal_run =
     run_wallet_journal 3 (pages_api [[jrow 103 1003 10, jrow 102 1002 10]]) accept_all
       never_invalidate 1 history_db"

text \<open>The same runs when the second request fails, and runs whose first request fails.\<close>

definition aborted_transactions_run :: "wallet_transaction run_result option" where
  "aborted_transactions_run =
     run_wallet_transactions 3 (failing_api [[txn 103 1003 34, txn 102 1002 34]] 1) accept_all
       never_invalidate 1 history_db"

definition aborted_journal_run :: "journal_row run_result option" where
  "aborted_journal_run =
     run_wallet_journal 3 (failing_api [[jrow 103 1003 10, jrow 102 1002 10]] 1) accept_all
       never_invalidate 1 history_db"

definition refused_transactions_run :: "wallet_transaction run_result option" where
  "refused_transactions_run =
     run_wallet_transactions 3 (failing_api [] 0) accept_all never_invalidate 1 history_db"

definition refused_journal_run :: "journal_row run_result option" where
  "refused_journal_run =
     run_wallet_journal 3 (failing_api [] 0) accept_all never_invalidate 1 history_db"

text \<open>Runs over a page whose first record has an unknown type.\<close>

definition unknown_type_transactions_run :: "wallet_transaction run_result option" where
  "unknown_type_transactions_run =
     run_wallet_transactions 3 (pages_api [[txn 103 1003 0, txn 102 1002 34]]) sde_outdated
       never_invalidate 1 history_db"

definition unknown_type_journal_run :: "journal_row run_result option" where
  "unknown_type_journal_run =
     run_wallet_journal 3 (pages_api [[jrow 103 1003 0, jrow 102 1002 10]]) ref_types_outdated
       never_invalidate 1 history_db"

text \<open>Runs over a page that repeats the record 105 three times before the record 104.\<close>

definition repeated_transactions_run :: "wallet_transaction run_result option" where
  "repeated_transactions_run =
     run_wallet_transactions 3
       (pages_api [[txn 105 1005 34, txn 105 1005 34, txn 105 1005 34, txn 104 1004 34]])
       twice_stored_transaction never_invalidate 1 history_db"

definition repeated_journal_run :: "journal_row run_result option" where
  "repeated_journal_run =
     run_wallet_journal 3
       (pages_api [[jrow 105 1005 10, jrow 105 1005 10, jrow 105 1005 10, jrow 104 1004 10]])
       twice_stored_entry never_invalidate 1 history_db"

text \<open>Market orders and research.\<close>

definition order_row :: "int \<Rightarrow> int \<Rightarrow> market_order" where
  "order_row i st =
     \<lparr>orderID = i, orderStationID = st, orderTypeID = 34, volRemaining = 5, volEntered = 10,
      minVolume = 1, orderState = 0, orderRange = 32767, accountKey = 1000, orderDuration = 90,
      bid = False, issued = 900\<rparr>"

definition orders_db :: db where
  "orders_db =
     base_db\<lparr>timers := [(1, ''MarketOrders'') \<mapsto> 10, (1, ''Research'') \<mapsto> 10],
             stations := [60003760 \<mapsto> \<lparr>st_region = 10000002, st_solar_system = 30000142\<rparr>],
             researches := [\<lparr>rs_character = 1, agent_id = 5, skill_id = 6, start_date = 0\<rparr>,
                            \<lparr>rs_character = 2, agent_id = 7, skill_id = 8, start_date = 0\<rparr>]\<rparr>"

definition orders_api :: "market_order list \<Rightarrow> apikey \<Rightarrow> int \<Rightarrow> eveapi_error + market_order sheet" where
  "orders_api os key c = Inr \<lparr>rows = os, cachedUntil = 2000\<rparr>"

definition research_api :: "apikey \<Rightarrow> int \<Rightarrow> eveapi_error + research_job sheet" where
  "research_api key c =
     Inr \<lparr>rows = [\<lparr>agentID = 30, skillTypeID = 11, researchStartDate = 100\<rparr>,
                  \<lparr>agentID = 31, skillTypeID = 12, researchStartDate = 200\<rparr>],
          cachedUntil = 3000\<rparr>"

definition unavailable_api :: "apikey \<Rightarrow> int \<Rightarrow> eveapi_error + 'r sheet" where
  "unavailable_api key c = Inl AuthenticationError"

definition wall_clock :: "nat \<Rightarrow> int" where
  "wall_clock i = 1500 + int i"

definition listed_orders_run :: "market_order run_result" where
  "listed_orders_run =
     run_market_orders (orders_api [order_row 7001 60003760]) accept_all wall_clock
       never_invalidate 1 orders_db"

definition refused_orders_run :: "market_order run_result" where
  "refused_orders_run =
     run_market_orders unavailable_api accept_all wall_clock never_invalidate 1 orders_db"

definition research_run :: "research_job run_result" where
  "research_run = run_research research_api accept_all never_invalidate 1 orders_db"

section \<open>Properties of the merge\<close>

lemma is_in_materials_iff:
  "is_in_materials h item ms \<longleftrightarrow> mat_id (h item) \<in> (\<lambda>m. mat_id (h m)) ` set ms"
  by (induction ms) auto

lemma add_quantity_ids: "mat_id (add_quantity h item ms r) = mat_id (h r)"
  by (induction ms) auto

lemma add_quantity_first:
  assumes "m \<in> set ms" "mat_id (h m) = mat_id (h item)"
    and "distinct (map (\<lambda>r. mat_id (h r)) ms)"
  shows "add_quantity h item ms = h(m := (h m)\<lparr>quantity := quantity (h m) + quantity (h item)\<rparr>)"
  using assms
proof (induction ms)
  case Nil
  then show ?case by simp
next
  case (Cons a ms)
  show ?case
  proof (cases "mat_id (h a) = mat_id (h item)")
    case True
    with Cons.prems have "a = m" by (auto simp: image_iff)
    with True show ?thesis by simp
  next
    case False
    with Cons show ?thesis by auto
  qed
qed

lemma total_quantity_snoc:
  "total_quantity h i (xs @ [y]) =
     total_quantity h i xs + (if mat_id (h y) = i then quantity (h y) else 0)"
  by (simp add: total_quantity_def)

lemma total_quantity_absent:
  "i \<notin> (\<lambda>r. mat_id (h r)) ` set xs \<Longrightarrow> total_quantity h i xs = 0"
  by (induction xs) (auto simp: total_quantity_def)

lemma merge_inv_ids: "merge_inv h xs (h', res) \<Longrightarrow> mat_id (h' r) = mat_id (h r)"
  by (cases "r \<in> set res") (auto simp: merge_inv_def)

lemma merge_inv_step:
  assumes inv: "merge_inv h xs (h', res)" and fresh: "y \<notin> set xs"
  shows "merge_inv h (xs @ [y]) (merge_step y (h', res))"
proof -
  have ids: "\<And>r. mat_id (h' r) = mat_id (h r)" using inv by (rule merge_inv_ids)
  have ynres: "y \<notin> set res" using inv fresh by (auto simp: merge_inv_def)
  have hy: "h' y = h y" using inv ynres by (auto simp: merge_inv_def)
  have dist: "distinct (map (\<lambda>r. mat_id (h r)) res)" using inv by (simp add: merge_inv_def)
  have dist': "distinct (map (\<lambda>r. mat_id (h' r)) res)" using dist by (simp add: ids)
  show ?thesis
  proof (cases "is_in_materials h' y res")
    case True
    then obtain m where m: "m \<in> set res" "mat_id (h' m) = mat_id (h' y)"
      by (auto simp: is_in_materials_iff)
    have upd: "add_quantity h' y res = h'(m := (h' m)\<lparr>quantity := quantity (h' m) + quantity (h' y)\<rparr>)"
      using add_quantity_first[OF m dist'] .
    have uniq: "\<And>m'. m' \<in> set res \<Longrightarrow> mat_id (h m') = mat_id (h y) \<Longrightarrow> m' = m"
      using dist m by (auto simp: ids distinct_map inj_on_def)
    have step: "merge_step y (h', res) = (h'(m := (h' m)\<lparr>quantity := quantity (h' m) + quantity (h' y)\<rparr>), res)"
      using True upd by (simp add: merge_step_def)
    let ?h2 = "h'(m := (h' m)\<lparr>quantity := quantity (h' m) + quantity (h' y)\<rparr>)"
    have a: "set res \<subseteq> set (xs @ [y])" using inv by (auto simp: merge_inv_def)
    have b: "(\<lambda>r. mat_id (h r)) ` set res = (\<lambda>r. mat_id (h r)) ` set (xs @ [y])"
    proof -
      have "mat_id (h y) \<in> (\<lambda>r. mat_id (h r)) ` set res" using m by (metis ids imageI)
      moreover have "(\<lambda>r. mat_id (h r)) ` set res = (\<lambda>r. mat_id (h r)) ` set xs"
        using inv by (simp add: merge_inv_def)
      ultimately show ?thesis by auto
    qed
    have c: "\<forall>r. r \<notin> set res \<longrightarrow> ?h2 r = h r"
      using inv m by (auto simp: merge_inv_def)
    have d: "\<forall>m' \<in> set res. ?h2 m' = (h m')\<lparr>quantity := total_quantity h (mat_id (h m')) (xs @ [y])\<rparr>"
    proof
      fix m' assume m': "m' \<in> set res"
      have old: "h' m' = (h m')\<lparr>quantity := total_quantity h (mat_id (h m')) xs\<rparr>"
        using inv m' by (simp add: merge_inv_def)
      show "?h2 m' = (h m')\<lparr>quantity := total_quantity h (mat_id (h m')) (xs @ [y])\<rparr>"
      proof (cases "m' = m")
        case True
        have "mat_id (h m) = mat_id (h y)" using m by (simp add: ids)
        then show ?thesis using True old by (simp add: total_quantity_snoc hy)
      next
        case False
        then have "mat_id (h m') \<noteq> mat_id (h y)" using uniq m' by blast
        then show ?thesis using False old by (simp add: total_quantity_snoc)
      qed
    qed
    show ?thesis
      unfolding step merge_inv_def using a b c d dist by simp
  next
    case False
    then have nid: "mat_id (h y) \<notin> (\<lambda>r. mat_id (h r)) ` set res"
      by (simp add: is_in_materials_iff ids)
    then have nid': "mat_id (h y) \<notin> (\<lambda>r. mat_id (h r)) ` set xs"
      using inv by (simp add: merge_inv_def)
    have step: "merge_step y (h', res) = (h', res @ [y])"
      using False by (simp add: merge_step_def)
    have a: "set (res @ [y]) \<subseteq> set (xs @ [y])" using inv by (auto simp: merge_inv_def)
    have b: "(\<lambda>r. mat_id (h r)) ` set (res @ [y]) = (\<lambda>r. mat_id (h r)) ` set (xs @ [y])"
      using inv by (simp add: merge_inv_def)
    have c: "\<forall>r. r \<notin> set (res @ [y]) \<longrightarrow> h' r = h r"
      using inv by (simp add: merge_inv_def)
    have e: "distinct (map (\<lambda>r. mat_id (h r)) (res @ [y]))" using dist nid by simp
    have d: "\<forall>m' \<in> set (res @ [y]). h' m' = (h m')\<lparr>quantity := total_quantity h (mat_id (h m')) (xs @ [y])\<rparr>"
    proof
      fix m' assume m': "m' \<in> set (res @ [y])"
      show "h' m' = (h m')\<lparr>quantity := total_quantity h (mat_id (h m')) (xs @ [y])\<rparr>"
      proof (cases "m' = y")
        case True
        then show ?thesis using nid' by (simp add: total_quantity_snoc hy total_quantity_absent)
      next
        case False
        then have mres: "m' \<in> set res" using m' by simp
        then have "mat_id (h m') \<noteq> mat_id (h y)" using nid by (metis (mono_tags, lifting) image_eqI)
        moreover have "h' m' = (h m')\<lparr>quantity := total_quantity h (mat_id (h m')) xs\<rparr>"
          using inv mres by (simp add: merge_inv_def)
        ultimately show ?thesis by (simp add: total_quantity_snoc)
      qed
    qed
    show ?thesis
      unfolding step merge_inv_def using a b c d e by simp
  qed
qed

lemma merge_inv_fold:
  "merge_inv h xs s \<Longrightarrow> distinct (xs @ ys) \<Longrightarrow> merge_inv h (xs @ ys) (fold merge_step ys s)"
proof (induction ys arbitrary: xs s)
  case Nil
  then show ?case by simp
next
  case (Cons y ys)
  obtain h' res where s: "s = (h', res)" by (cases s)
  have "merge_inv h (xs @ [y]) (merge_step y s)"
    using Cons.prems merge_inv_step[of h xs h' res y] by (simp add: s)
  moreover have "distinct ((xs @ [y]) @ ys)" using Cons.prems by simp
  ultimately have "merge_inv h ((xs @ [y]) @ ys) (fold merge_step ys (merge_step y s))"
    by (rule Cons.IH)
  then show ?case by simp
qed

lemma merge_step_ids:
  "mat_id (fst (merge_step y (h', res)) r) = mat_id (h' r)"
  by (simp add: merge_step_def add_quantity_ids)

lemma merge_refs_fold:
  "(\<And>r. mat_id (h' r) = mat_id (h r)) \<Longrightarrow>
   snd (fold merge_step ys (h', res)) = res @ first_refs h (map (\<lambda>r. mat_id (h r)) res) ys"
proof (induction ys arbitrary: h' res)
  case Nil
  then show ?case by simp
next
  case (Cons y ys)
  obtain h'' res' where st: "merge_step y (h', res) = (h'', res')" by (cases "merge_step y (h', res)")
  have ids'': "\<And>r. mat_id (h'' r) = mat_id (h r)"
    using merge_step_ids[of y h' res] st Cons.prems by simp
  have res': "res' = (if mat_id (h y) \<in> (\<lambda>r. mat_id (h r)) ` set res then res else res @ [y])"
    using st Cons.prems by (auto simp: merge_step_def is_in_materials_iff split: if_splits)
  have "snd (fold merge_step ys (h'', res')) = res' @ first_refs h (map (\<lambda>r. mat_id (h r)) res') ys"
    using ids'' by (rule Cons.IH)
  then show ?case using st res' by auto
qed

text \<open>
  Claim C10, as amended. When the entries of the two bills are pairwise distinct objects,
  \<^verbatim>\<open>merge_bill_of_materials\<close> returns a list in which every material id occurs once; the
  ids are those of the inputs; the list consists of the first entry of each id, in input
  order; and each returned dictionary is that first entry with its quantity replaced by
  the sum of the quantities of all input entries with that id, every other field unchanged.
\<close>

theorem merge_bill_of_materials_distinct_objects:
  assumes "distinct (materials1 @ materials2)"
    and "merge_bill_of_materials h materials1 materials2 = (h', merged)"
  shows "distinct (map (\<lambda>m. mat_id (h' m)) merged)
    \<and> (\<lambda>m. mat_id (h' m)) ` set merged = (\<lambda>r. mat_id (h r)) ` set (materials1 @ materials2)
    \<and> merged = first_refs h [] (materials1 @ materials2)
    \<and> (\<forall>m \<in> set merged.
          h' m = (h m)\<lparr>quantity := total_quantity h (mat_id (h m)) (materials1 @ materials2)\<rparr>)"
proof -
  have "merge_inv h [] (h, [])" by (simp add: merge_inv_def)
  then have "merge_inv h ([] @ (materials1 @ materials2)) (fold merge_step (materials1 @ materials2) (h, []))"
    using assms(1) by (intro merge_inv_fold) simp_all
  then have inv: "merge_inv h (materials1 @ materials2) (h', merged)"
    using assms(2) by (simp add: merge_bill_of_materials_def)
  have ids: "\<And>r. mat_id (h' r) = mat_id (h r)" using inv by (rule merge_inv_ids)
  have refs: "merged = first_refs h [] (materials1 @ materials2)"
    using merge_refs_fold[of h h "materials1 @ materials2" "[]"] assms(2)
    by (simp add: merge_bill_of_materials_def)
  show ?thesis using inv refs by (simp add: merge_inv_def ids)
qed

theorem merge_bill_of_materials_distinct_objects_witness:
  "distinct ([0, 1] @ [2::nat])
   \<and> snd (merge_bill_of_materials mineral_store [0, 1] [2]) = [0, 1]
   \<and> fst (merge_bill_of_materials mineral_store [0, 1] [2]) 0
       = \<lparr>mat_id = 34, name = ''Tritanium'', quantity = 8\<rparr>
   \<and> fst (merge_bill_of_materials mineral_store [0, 1] [2]) 1
       = \<lparr>mat_id = 35, name = ''Pyerite'', quantity = 7\<rparr>"
proof -
  have d: "distinct ([0, 1] @ [2::nat])" by simp
  obtain h' merged where m: "merge_bill_of_materials mineral_store [0, 1] [2] = (h', merged)"
    by (cases "merge_bill_of_materials mineral_store [0, 1] [2]")
  note t = merge_bill_of_materials_distinct_objects[OF d m]
  have r: "merged = [0, 1]" using t by (simp add: mineral_store_def)
  have "\<forall>m \<in> set merged. h' m = (mineral_store m)\<lparr>quantity := total_quantity mineral_store (mat_id (mineral_store m)) ([0, 1] @ [2])\<rparr>"
    using t by blast
  then have "h' 0 = \<lparr>mat_id = 34, name = ''Tritanium'', quantity = 8\<rparr>"
    and "h' 1 = \<lparr>mat_id = 35, name = ''Pyerite'', quantity = 7\<rparr>"
    unfolding r by (simp_all add: mineral_store_def total_quantity_def)
  then show ?thesis using d m r by simp
qed

text \<open>
  Claim C10 as stated, for every pair of bills, fails when one dictionary object occurs three
  times in the input: \<^verbatim>\<open>d = {'id': 1, 'quantity': 5}\<close>,
  \<^verbatim>\<open>merge_bill_of_materials([d, d, d], [])\<close>. The second round doubles the quantity of \<open>d\<close> to
  10, the third reads the already updated object and doubles it to 20; the sum of the
  quantities of the input entries is 15.
\<close>

theorem merge_bill_of_materials_aliased_counterexample:
  "snd (merge_bill_of_materials tritanium_store [0, 0, 0] []) = [0]
   \<and> quantity (fst (merge_bill_of_materials tritanium_store [0, 0, 0] []) 0) = 20
   \<and> total_quantity tritanium_store 1 ([0, 0, 0] @ []) = 15
   \<and> quantity (fst (merge_bill_of_materials tritanium_store [0, 0, 0] []) 0)
       \<noteq> total_quantity tritanium_store 1 ([0, 0, 0] @ [])"
  by (simp add: merge_bill_of_materials_def merge_step_def tritanium_store_def total_quantity_def)

section \<open>Properties of the API tasks\<close>

subsection \<open>Credentials and the research task\<close>

lemma valid_apikey_None_iff:
  "valid_apikey d ch = None \<longleftrightarrow>
     (\<forall>k key. apikey_id ch = Some k \<longrightarrow> apikeys d k = Some key \<longrightarrow> \<not> is_valid key)"
  by (auto simp: valid_apikey_def split: option.splits)

text \<open>
  Claim C7. For every character that has no API key marked valid, a run of the
  wallet-transactions walker and a run of the wallet-journal walker return at once,
  whatever the fuel: the outcome is \<open>SkippedNoCredential\<close> (no error is raised), the storage,
  record tables and timers included, is the one the run started with, and no request was made.
\<close>

theorem no_credential_skip:
  assumes "characters d c = Some ch"
    and "\<forall>k key. apikey_id ch = Some k \<longrightarrow> apikeys d k = Some key \<longrightarrow> \<not> is_valid key"
  shows "run_wallet_transactions fuel api sv invalidates c d
           = Some \<lparr>outcome = SkippedNoCredential, final_db = d, fetches = []\<rparr>
    \<and> run_wallet_journal fuel api' sv' invalidates c d
           = Some \<lparr>outcome = SkippedNoCredential, final_db = d, fetches = []\<rparr>"
proof -
  have "valid_apikey d ch = None" using assms(2) by (simp add: valid_apikey_None_iff)
  then show ?thesis
    using assms(1) by (simp add: run_wallet_transactions_def run_wallet_journal_def)
qed

text \<open>Witness for C7: the key of the character is stored but marked invalid.\<close>

theorem no_credential_skip_witness:
  "characters keyless_db 1 = Some pilot
   \<and> apikey_id pilot = Some 7
   \<and> map_option is_valid (apikeys keyless_db 7) = Some False
   \<and> run_wallet_transactions 0 (\<lambda>key c n rc cur. Inr \<lparr>rows = [], cachedUntil = 99\<rparr>) accept_all
        (\<lambda>e. True) 1 keyless_db
       = Some \<lparr>outcome = SkippedNoCredential, final_db = keyless_db, fetches = []\<rparr>
   \<and> run_wallet_journal 0 (\<lambda>key c n rc cur. Inr \<lparr>rows = [], cachedUntil = 99\<rparr>) accept_all
        (\<lambda>e. True) 1 keyless_db
       = Some \<lparr>outcome = SkippedNoCredential, final_db = keyless_db, fetches = []\<rparr>"
proof -
  have a: "characters keyless_db 1 = Some pilot" by (simp add: keyless_db_def base_db_def)
  have b: "\<forall>k key. apikey_id pilot = Some k \<longrightarrow> apikeys keyless_db k = Some key \<longrightarrow> \<not> is_valid key"
    by (simp add: keyless_db_def base_db_def pilot_def pilot_key_def)
  have c: "apikey_id pilot = Some 7" "map_option is_valid (apikeys keyless_db 7) = Some False"
    by (simp_all add: keyless_db_def base_db_def pilot_def pilot_key_def)
  show ?thesis using a c no_credential_skip[OF a b] by simp
qed

lemma save_jobs_None:
  "save_jobs sv c js d = (None, d') \<Longrightarrow>
     d' = d\<lparr>researches := researches d @ map (new_research c) js\<rparr>"
proof (induction js arbitrary: d)
  case Nil
  then show ?case by simp
next
  case (Cons j js)
  from Cons.prems have sv: "sv d (new_research c j) = Saved"
    by (simp split: save_outcome.splits)
  with Cons.prems have
    "save_jobs sv c js (d\<lparr>researches := researches d @ [new_research c j]\<rparr>) = (None, d')"
    by simp
  from Cons.IH[OF this] show ?case by simp
qed

lemma new_research_character [simp]: "rs_character (new_research c j) = c"
  by (simp add: new_research_def)

text \<open>
  Claim C9. A run of \<^verbatim>\<open>ProcessResearchCharacter\<close> that completes has fetched a sheet with a
  valid key, and afterwards the table \<open>Research\<close> consists of the rows of the other characters,
  unchanged, followed by one row per job of the fetched sheet: the rows of the character are
  exactly the jobs of the sheet, whatever was stored for it before.
\<close>

theorem research_full_replacement:
  assumes "outcome (run_research api sv invalidates c d) = Done"
  shows "\<exists>ch k key sh.
      characters d c = Some ch \<and> valid_apikey d ch = Some (k, key) \<and> api key c = Inr sh
    \<and> researches (final_db (run_research api sv invalidates c d))
        = filter (\<lambda>r. rs_character r \<noteq> c) (researches d) @ map (new_research c) (rows sh)
    \<and> filter (\<lambda>r. rs_character r = c) (researches (final_db (run_research api sv invalidates c d)))
        = map (new_research c) (rows sh)
    \<and> filter (\<lambda>r. rs_character r \<noteq> c) (researches (final_db (run_research api sv invalidates c d)))
        = filter (\<lambda>r. rs_character r \<noteq> c) (researches d)"
proof -
  from assms obtain ch where ch: "characters d c = Some ch"
    by (auto simp: run_research_def split: option.splits)
  from assms ch obtain k key where key: "valid_apikey d ch = Some (k, key)"
    by (auto simp: run_research_def split: option.splits)
  from assms ch key obtain sh where sh: "api key c = Inr sh"
    by (auto simp: run_research_def split: sum.splits)
  obtain ex d' where sj: "save_jobs sv c (rows sh) (delete_research c d) = (ex, d')"
    by (cases "save_jobs sv c (rows sh) (delete_research c d)")
  from assms ch key sh sj have ex: "ex = None"
    by (auto simp: run_research_def split: option.splits)
  from assms ch key sh sj ex obtain d'' where
    ut: "update_timer c ''Research'' (cachedUntil sh) d' = Inr d''"
    and fin: "final_db (run_research api sv invalidates c d) = d''"
    by (auto simp: run_research_def split: sum.splits)
  have d': "d' = (delete_research c d)\<lparr>researches := researches (delete_research c d) @ map (new_research c) (rows sh)\<rparr>"
    using sj ex save_jobs_None by blast
  have "researches d'' = researches d'"
    using ut by (auto simp: update_timer_def split: option.splits)
  then have r: "researches (final_db (run_research api sv invalidates c d))
        = filter (\<lambda>r. rs_character r \<noteq> c) (researches d) @ map (new_research c) (rows sh)"
    using fin d' by (simp add: delete_research_def)
  show ?thesis using ch key sh unfolding r by (simp add: o_def)
qed

subsection \<open>Frame: what the transactions walker leaves alone\<close>

lemma mt_frame_refl [simp]: "mt_frame d d"
  by (simp add: mt_frame_def)

lemma mt_frame_trans: "mt_frame d d1 \<Longrightarrow> mt_frame d1 d2 \<Longrightarrow> mt_frame d d2"
  by (simp add: mt_frame_def)

lemma mt_frame_timers: "mt_frame d d' \<Longrightarrow> timers d' = timers d"
  by (simp add: mt_frame_def)

lemma mt_frame_insert: "mt_frame d (insert_market_transaction r d)"
  by (simp add: mt_frame_def insert_market_transaction_def)

lemma mt_frame_delete: "mt_frame d (delete_market_transaction r d)"
  by (simp add: mt_frame_def delete_market_transaction_def)

lemma market_transactions_delete:
  "market_transactions (delete_market_transaction r d)
     = filter (\<lambda>x. mt_pk x \<noteq> mt_pk r) (market_transactions d)"
  by (simp add: delete_market_transaction_def)

lemma mt_seq_delete: "mt_seq (delete_market_transaction r d) = mt_seq d"
  by (simp add: delete_market_transaction_def)

lemma fold_delete_market_transaction:
  "market_transactions (fold delete_market_transaction xs d)
     = filter (\<lambda>x. mt_pk x \<notin> mt_pk ` set xs) (market_transactions d)
   \<and> mt_seq (fold delete_market_transaction xs d) = mt_seq d
   \<and> mt_frame d (fold delete_market_transaction xs d)"
proof (induction xs arbitrary: d)
  case Nil
  then show ?case by simp
next
  case (Cons a xs)
  have "mt_frame d (fold delete_market_transaction xs (delete_market_transaction a d))"
    using Cons.IH[of "delete_market_transaction a d"] mt_frame_delete[of d a] mt_frame_trans
    by blast
  then show ?case
    using Cons.IH[of "delete_market_transaction a d"]
    by (simp add: market_transactions_delete mt_seq_delete conj_commute)
qed

lemma mt_frame_remove_duplicates: "mt_frame d (remove_duplicate_transactions c t d)"
  by (simp add: remove_duplicate_transactions_def fold_delete_market_transaction)

lemma mt_frame_process:
  "process_transactions sv c ex page w d = (w', d', dup) \<Longrightarrow> mt_frame d d'"
proof (induction page arbitrary: w d)
  case Nil
  then show ?case by simp
next
  case (Cons t ts)
  show ?case
  proof (cases "journalTransactionID t \<in> set ex")
    case True
    with Cons show ?thesis by simp
  next
    case False
    show ?thesis
    proof (cases "sv d (new_market_transaction c t)")
      case Saved
      with False Cons.prems have
        "process_transactions sv c ex ts w (insert_market_transaction (new_market_transaction c t) d) = (w', d', dup)"
        by simp
      from Cons.IH[OF this] show ?thesis
        using mt_frame_insert mt_frame_trans by blast
    next
      case IntegrityError
      with False Cons show ?thesis by simp
    next
      case MultipleObjectsReturned
      with False Cons.prems show ?thesis by simp
    qed
  qed
qed

lemma mt_frame_reconcile:
  assumes "reconcile_transactions sv c page d = (w, d')"
  shows "mt_frame d d'"
proof -
  obtain w1 d1 dup where p:
    "process_transactions sv c (existing_transaction_ids c d) page True d = (w1, d1, dup)"
    by (cases "process_transactions sv c (existing_transaction_ids c d) page True d")
  have f1: "mt_frame d d1" using p by (rule mt_frame_process)
  show ?thesis
  proof (cases dup)
    case None
    with assms p f1 show ?thesis by (simp add: reconcile_transactions_def)
  next
    case (Some t)
    with assms p have "d' = remove_duplicate_transactions c t d1"
      by (simp add: reconcile_transactions_def)
    then show ?thesis using f1 mt_frame_remove_duplicates mt_frame_trans by blast
  qed
qed

subsection \<open>A proof rule for the loop of the transactions walker\<close>

lemma walk_transactions_rule:
  assumes run: "walk_transactions n api sv key c sh d log = Some (ex, sh', d', log')"
    and init: "I sh d log"
    and next_page: "\<And>sh d log d2 r sh2.
        I sh d log \<Longrightarrow> rows sh \<noteq> [] \<Longrightarrow> reconcile_transactions sv c (rows sh) d = (True, d2) \<Longrightarrow>
        oldest_transaction c d2 = Some r \<Longrightarrow>
        api key c (length log) rowCount (Some (journal_transaction_id r)) = Inr sh2 \<Longrightarrow>
        I sh2 d2 (log @ [\<lparr>cursor = Some (journal_transaction_id r), storage = d2, response = Inr sh2\<rparr>])"
    and empty_page: "\<And>sh d log. I sh d log \<Longrightarrow> rows sh = [] \<Longrightarrow> Q None sh d log"
    and known: "\<And>sh d log d2.
        I sh d log \<Longrightarrow> rows sh \<noteq> [] \<Longrightarrow> reconcile_transactions sv c (rows sh) d = (False, d2) \<Longrightarrow>
        Q None sh d2 log"
    and no_rows: "\<And>sh d log d2.
        I sh d log \<Longrightarrow> rows sh \<noteq> [] \<Longrightarrow> reconcile_transactions sv c (rows sh) d = (True, d2) \<Longrightarrow>
        oldest_transaction c d2 = None \<Longrightarrow> Q None sh d2 log"
    and failed: "\<And>sh d log d2 r e.
        I sh d log \<Longrightarrow> rows sh \<noteq> [] \<Longrightarrow> reconcile_transactions sv c (rows sh) d = (True, d2) \<Longrightarrow>
        oldest_transaction c d2 = Some r \<Longrightarrow>
        api key c (length log) rowCount (Some (journal_transaction_id r)) = Inl e \<Longrightarrow>
        Q (Some (EveapiError e)) sh d2
          (log @ [\<lparr>cursor = Some (journal_transaction_id r), storage = d2, response = Inl e\<rparr>])"
  shows "Q ex sh' d' log'"
  using run init
proof (induction n arbitrary: sh d log)
  case 0
  then show ?case by simp
next
  case (Suc n)
  show ?case
  proof (cases "rows sh = []")
    case True
    with Suc.prems empty_page[of sh d log] show ?thesis by simp
  next
    case False
    obtain w d2 where rec: "reconcile_transactions sv c (rows sh) d = (w, d2)"
      by (cases "reconcile_transactions sv c (rows sh) d")
    show ?thesis
    proof (cases w)
      case False
      with Suc.prems \<open>rows sh \<noteq> []\<close> rec known[of sh d log d2] show ?thesis by simp
    next
      case True
      note w = this
      show ?thesis
      proof (cases "oldest_transaction c d2")
        case None
        with Suc.prems \<open>rows sh \<noteq> []\<close> rec w no_rows[of sh d log d2] show ?thesis by simp
      next
        case (Some r)
        show ?thesis
        proof (cases "api key c (length log) rowCount (Some (journal_transaction_id r))")
          case (Inl e)
          with Suc.prems \<open>rows sh \<noteq> []\<close> rec w Some failed[of sh d log d2 r e]
          show ?thesis by auto
        next
          case (Inr sh2)
          let ?log = "log @ [\<lparr>cursor = Some (journal_transaction_id r), storage = d2, response = Inr sh2\<rparr>]"
          have "walk_transactions n api sv key c sh2 d2 ?log = Some (ex, sh', d', log')"
            using Suc.prems(1) \<open>rows sh \<noteq> []\<close> rec w Some Inr by simp
          moreover have "I sh2 d2 ?log"
            using next_page[of sh d log d2 r sh2] Suc.prems(2) \<open>rows sh \<noteq> []\<close> rec w Some Inr
            by simp
          ultimately show ?thesis by (rule Suc.IH)
        qed
      qed
    qed
  qed
qed

subsection \<open>The log of a walk over the transactions\<close>

lemma walk_transactions_log:
  assumes run: "walk_transactions n api sv key c sh d log = Some (ex, sh', d', log')"
    and log: "log \<noteq> []" "response (last log) = Inr sh" "storage (last log) = d"
      "successively (transactions_link sv c) log"
  shows "successively (transactions_link sv c) log' \<and> log' \<noteq> [] \<and> mt_frame d d'
    \<and> take (length log) log' = log
    \<and> (case ex of
          None \<Rightarrow> response (last log') = Inr sh'
                 \<and> transactions_last_page sv c sh' (storage (last log')) d'
        | Some x \<Rightarrow> (\<exists>e. x = EveapiError e \<and> response (last log') = Inl e)
                 \<and> storage (last log') = d' \<and> length log < length log')"
proof -
  let ?I = "\<lambda>sh0 d0 log0. log0 \<noteq> [] \<and> response (last log0) = Inr sh0 \<and> storage (last log0) = d0
      \<and> successively (transactions_link sv c) log0 \<and> mt_frame d d0
      \<and> length log \<le> length log0 \<and> take (length log) log0 = log"
  let ?Q = "\<lambda>ex sh0 d0 log0. successively (transactions_link sv c) log0 \<and> log0 \<noteq> [] \<and> mt_frame d d0
    \<and> take (length log) log0 = log
    \<and> (case ex of
          None \<Rightarrow> response (last log0) = Inr sh0
                 \<and> transactions_last_page sv c sh0 (storage (last log0)) d0
        | Some x \<Rightarrow> (\<exists>e. x = EveapiError e \<and> response (last log0) = Inl e)
                 \<and> storage (last log0) = d0 \<and> length log < length log0)"
  show ?thesis
  proof (rule walk_transactions_rule[where I = ?I and Q = ?Q, OF run])
    show "?I sh d log" using log by simp
  next
    fix sh0 d0 log0 d2 r and sh2 :: "wallet_transaction sheet"
    assume i: "?I sh0 d0 log0" and ne: "rows sh0 \<noteq> []"
      and rec: "reconcile_transactions sv c (rows sh0) d0 = (True, d2)"
    let ?e = "\<lparr>cursor = Some (journal_transaction_id r), storage = d2, response = Inr sh2\<rparr>"
    have "transactions_link sv c (last log0) ?e"
      using i ne rec by (simp add: transactions_link_def)
    moreover have "mt_frame d d2"
      using i mt_frame_reconcile[OF rec] mt_frame_trans by blast
    ultimately show "?I sh2 d2 (log0 @ [?e])"
      using i by (simp add: successively_append_iff)
  next
    fix sh0 d0 log0
    assume "?I sh0 d0 log0" and "rows sh0 = []"
    then show "?Q None sh0 d0 log0" by (simp add: transactions_last_page_def)
  next
    fix sh0 d0 log0 d2
    assume i: "?I sh0 d0 log0" and ne: "rows sh0 \<noteq> []"
      and rec: "reconcile_transactions sv c (rows sh0) d0 = (False, d2)"
    have "mt_frame d d2"
      using i mt_frame_reconcile[OF rec] mt_frame_trans by blast
    then show "?Q None sh0 d2 log0" using i ne rec by (simp add: transactions_last_page_def)
  next
    fix sh0 d0 log0 d2
    assume i: "?I sh0 d0 log0" and ne: "rows sh0 \<noteq> []"
      and rec: "reconcile_transactions sv c (rows sh0) d0 = (True, d2)"
      and old: "oldest_transaction c d2 = None"
    have "mt_frame d d2"
      using i mt_frame_reconcile[OF rec] mt_frame_trans by blast
    then show "?Q None sh0 d2 log0" using i ne rec old by (simp add: transactions_last_page_def)
  next
    fix sh0 d0 log0 d2 r e
    assume i: "?I sh0 d0 log0" and ne: "rows sh0 \<noteq> []"
      and rec: "reconcile_transactions sv c (rows sh0) d0 = (True, d2)"
    let ?e = "\<lparr>cursor = Some (journal_transaction_id r), storage = d2,
                response = Inl e\<rparr> :: wallet_transaction fetch"
    have "transactions_link sv c (last log0) ?e"
      using i ne rec by (simp add: transactions_link_def)
    moreover have "mt_frame d d2"
      using i mt_frame_reconcile[OF rec] mt_frame_trans by blast
    ultimately show "?Q (Some (EveapiError e)) sh0 d2 (log0 @ [?e])"
      using i by (simp add: successively_append_iff)
  qed
qed

subsection \<open>The cursor\<close>


lemma oldest_transaction_None:
  "oldest_transaction c d = None \<longleftrightarrow> character_transactions c d = []"
proof -
  have "sort_key mt_date (character_transactions c d) = [] \<longleftrightarrow> character_transactions c d = []"
    by (metis length_sort length_0_conv)
  then show ?thesis by (auto simp: oldest_transaction_def split: list.splits)
qed


subsection \<open>Primary keys and the removal of duplicates\<close>

lemma wf_transactions_insert:
  "wf_transactions d \<Longrightarrow> wf_transactions (insert_market_transaction r d)"
  by (fastforce simp: wf_transactions_def insert_market_transaction_def)

lemma transaction_keys_insert:
  "transaction_keys d \<subseteq> transaction_keys (insert_market_transaction r d)"
  by (auto simp: transaction_keys_def insert_market_transaction_def)

lemma remove_duplicate_transactions_rows:
  assumes "wf_transactions d"
  shows "market_transactions (remove_duplicate_transactions c t d)
     = filter (\<lambda>x. x \<notin> set (drop 1 (filter (\<lambda>r. journal_transaction_id r = journalTransactionID t \<and> mt_character r = c)
                  (market_transactions d)))) (market_transactions d)"
proof -
  let ?rows = "market_transactions d"
  let ?dups = "filter (\<lambda>r. journal_transaction_id r = journalTransactionID t \<and> mt_character r = c) ?rows"
  have inj: "inj_on mt_pk (set ?rows)"
    using assms by (simp add: wf_transactions_def distinct_map)
  have sub: "set (drop 1 ?dups) \<subseteq> set ?rows"
    using set_drop_subset[of 1 ?dups] by auto
  have "\<And>x. x \<in> set ?rows \<Longrightarrow> (mt_pk x \<in> mt_pk ` set (drop 1 ?dups)) = (x \<in> set (drop 1 ?dups))"
    using inj sub by (meson inj_on_image_mem_iff)
  then have "filter (\<lambda>x. mt_pk x \<notin> mt_pk ` set (drop 1 ?dups)) ?rows
           = filter (\<lambda>x. x \<notin> set (drop 1 ?dups)) ?rows"
    by (intro filter_cong) auto
  then show ?thesis
    by (simp add: remove_duplicate_transactions_def fold_delete_market_transaction)
qed

lemma distinct_rows:
  "wf_transactions d \<Longrightarrow> distinct (market_transactions d)"
  by (simp add: wf_transactions_def distinct_map)

lemma remove_duplicate_transactions_one_left:
  assumes wf: "wf_transactions d"
    and some: "filter (\<lambda>r. journal_transaction_id r = journalTransactionID t \<and> mt_character r = c)
                 (market_transactions d) = x # xs"
  shows "filter (\<lambda>r. journal_transaction_id r = journalTransactionID t \<and> mt_character r = c)
           (market_transactions (remove_duplicate_transactions c t d)) = [x]"
proof -
  let ?P = "\<lambda>r. journal_transaction_id r = journalTransactionID t \<and> mt_character r = c"
  let ?rows = "market_transactions d"
  have dist: "distinct (x # xs)"
    using distinct_rows[OF wf] distinct_filter[of ?rows ?P] some by metis
  have d1: "drop 1 (filter ?P ?rows) = xs" using some by simp
  have "market_transactions (remove_duplicate_transactions c t d)
      = filter (\<lambda>y. y \<notin> set xs) ?rows"
    using remove_duplicate_transactions_rows[OF wf, of c t] unfolding d1 .
  then have "filter ?P (market_transactions (remove_duplicate_transactions c t d))
      = filter ?P (filter (\<lambda>y. y \<notin> set xs) ?rows)" by (rule arg_cong)
  also have "\<dots> = filter (\<lambda>y. y \<notin> set xs) (filter ?P ?rows)"
    by (simp only: filter_filter conj_commute)
  also have "\<dots> = filter (\<lambda>y. y \<notin> set xs) (x # xs)" using some by simp
  also have "\<dots> = [x]" using dist by (simp add: filter_empty_conv)
  finally show ?thesis .
qed

lemma wf_transactions_remove_duplicates:
  assumes "wf_transactions d"
  shows "wf_transactions (remove_duplicate_transactions c t d)"
proof -
  have "mt_seq (remove_duplicate_transactions c t d) = mt_seq d"
    by (simp add: remove_duplicate_transactions_def fold_delete_market_transaction)
  then show ?thesis
    using assms unfolding wf_transactions_def remove_duplicate_transactions_rows[OF assms]
    by (simp add: distinct_map_filter)
qed

lemma transaction_keys_remove_duplicates:
  assumes wf: "wf_transactions d"
  shows "transaction_keys (remove_duplicate_transactions c t d) = transaction_keys d"
proof -
  let ?P = "\<lambda>r. journal_transaction_id r = journalTransactionID t \<and> mt_character r = c"
  let ?rows = "market_transactions d"
  let ?rows' = "market_transactions (remove_duplicate_transactions c t d)"
  have rows': "?rows' = filter (\<lambda>x. x \<notin> set (drop 1 (filter ?P ?rows))) ?rows"
    by (rule remove_duplicate_transactions_rows[OF wf])
  have "transaction_keys d \<subseteq> transaction_keys (remove_duplicate_transactions c t d)"
  proof
    fix k assume "k \<in> transaction_keys d"
    then obtain y where y: "y \<in> set ?rows" "k = (mt_character y, journal_transaction_id y)"
      by (auto simp: transaction_keys_def)
    show "k \<in> transaction_keys (remove_duplicate_transactions c t d)"
    proof (cases "y \<in> set (drop 1 (filter ?P ?rows))")
      case False
      with y have "y \<in> set ?rows'" by (simp add: rows')
      with y show ?thesis by (auto simp: transaction_keys_def)
    next
      case True
      then have "y \<in> set (filter ?P ?rows)" by (meson in_set_dropD)
      then have py: "?P y" by simp
      from True obtain x xs where some: "filter ?P ?rows = x # xs"
        by (cases "filter ?P ?rows") auto
      then have "filter ?P ?rows' = [x]"
        using remove_duplicate_transactions_one_left[OF wf] by blast
      then have "x \<in> set (filter ?P ?rows')" by simp
      then have "x \<in> set ?rows' \<and> ?P x" by simp
      then have "(mt_character x, journal_transaction_id x)
          \<in> transaction_keys (remove_duplicate_transactions c t d)"
        unfolding transaction_keys_def by (intro imageI) simp
      moreover have "k = (mt_character x, journal_transaction_id x)"
        using py y \<open>x \<in> set ?rows' \<and> ?P x\<close> by simp
      ultimately show ?thesis by simp
    qed
  qed
  moreover have "transaction_keys (remove_duplicate_transactions c t d) \<subseteq> transaction_keys d"
    by (auto simp: transaction_keys_def rows')
  ultimately show ?thesis by blast
qed

subsection \<open>One page of transactions\<close>

lemma process_transactions_keeps:
  "process_transactions sv c ex page w d = (w', d', dup) \<Longrightarrow> wf_transactions d \<Longrightarrow>
     wf_transactions d' \<and> transaction_keys d \<subseteq> transaction_keys d'"
proof (induction page arbitrary: w d)
  case Nil
  then show ?case by simp
next
  case (Cons t ts)
  show ?case
  proof (cases "journalTransactionID t \<in> set ex")
    case True
    with Cons show ?thesis by simp
  next
    case False
    show ?thesis
    proof (cases "sv d (new_market_transaction c t)")
      case Saved
      let ?d1 = "insert_market_transaction (new_market_transaction c t) d"
      from Saved False Cons.prems have "process_transactions sv c ex ts w ?d1 = (w', d', dup)"
        by simp
      moreover have "wf_transactions ?d1" using Cons.prems(2) by (rule wf_transactions_insert)
      ultimately have "wf_transactions d' \<and> transaction_keys ?d1 \<subseteq> transaction_keys d'"
        by (rule Cons.IH)
      then show ?thesis using transaction_keys_insert[of d "new_market_transaction c t"] by blast
    next
      case IntegrityError
      with False Cons show ?thesis by simp
    next
      case MultipleObjectsReturned
      with False Cons.prems show ?thesis by auto
    qed
  qed
qed

lemma reconcile_transactions_keeps:
  assumes "reconcile_transactions sv c page d = (w, d')" and wf: "wf_transactions d"
  shows "wf_transactions d' \<and> transaction_keys d \<subseteq> transaction_keys d'"
proof -
  obtain w1 d1 dup where p:
    "process_transactions sv c (existing_transaction_ids c d) page True d = (w1, d1, dup)"
    by (cases "process_transactions sv c (existing_transaction_ids c d) page True d")
  have k1: "wf_transactions d1 \<and> transaction_keys d \<subseteq> transaction_keys d1"
    using p wf by (rule process_transactions_keeps)
  show ?thesis
  proof (cases dup)
    case None
    with assms p k1 show ?thesis by (simp add: reconcile_transactions_def)
  next
    case (Some t)
    with assms p have "d' = remove_duplicate_transactions c t d1"
      by (simp add: reconcile_transactions_def)
    then show ?thesis
      using k1 wf_transactions_remove_duplicates[of d1 c t]
        transaction_keys_remove_duplicates[of d1 c t] by simp
  qed
qed



subsection \<open>Keys persist along a walk\<close>

lemma walk_transactions_keys:
  assumes run: "walk_transactions n api sv key c sh d log = Some (ex, sh', d', log')"
    and wf: "wf_transactions d"
  shows "wf_transactions d' \<and> transaction_keys d \<subseteq> transaction_keys d'
    \<and> (\<forall>f \<in> set (drop (length log) log'). transaction_keys (storage f) \<subseteq> transaction_keys d')"
proof -
  let ?I = "\<lambda>(sh0::wallet_transaction sheet) d0 (log0::wallet_transaction fetch list).
      length log \<le> length log0 \<and> wf_transactions d0 \<and> transaction_keys d \<subseteq> transaction_keys d0
      \<and> (\<forall>f \<in> set (drop (length log) log0). transaction_keys (storage f) \<subseteq> transaction_keys d0)"
  let ?Q = "\<lambda>(ex::exn option) (sh0::wallet_transaction sheet) d0 (log0::wallet_transaction fetch list).
      wf_transactions d0 \<and> transaction_keys d \<subseteq> transaction_keys d0
      \<and> (\<forall>f \<in> set (drop (length log) log0). transaction_keys (storage f) \<subseteq> transaction_keys d0)"
  show ?thesis
  proof (rule walk_transactions_rule[where I = ?I and Q = ?Q, OF run])
    show "?I sh d log" using wf by simp
  next
    fix sh0 d0 log0 d2 r and sh2 :: "wallet_transaction sheet"
    assume i: "?I sh0 d0 log0"
      and rec: "reconcile_transactions sv c (rows sh0) d0 = (True, d2)"
    have "wf_transactions d2 \<and> transaction_keys d0 \<subseteq> transaction_keys d2"
      using rec i by (intro reconcile_transactions_keeps) auto
    then show "?I sh2 d2 (log0 @ [\<lparr>cursor = Some (journal_transaction_id r), storage = d2, response = Inr sh2\<rparr>])"
      using i by auto
  next
    fix sh0 d0 log0
    assume "?I sh0 d0 log0"
    then show "?Q None sh0 d0 log0" by simp
  next
    fix sh0 d0 log0 d2
    assume i: "?I sh0 d0 log0"
      and rec: "reconcile_transactions sv c (rows sh0) d0 = (False, d2)"
    have "wf_transactions d2 \<and> transaction_keys d0 \<subseteq> transaction_keys d2"
      using rec i by (intro reconcile_transactions_keeps) auto
    then show "?Q None sh0 d2 log0" using i by auto
  next
    fix sh0 d0 log0 d2
    assume i: "?I sh0 d0 log0"
      and rec: "reconcile_transactions sv c (rows sh0) d0 = (True, d2)"
    have "wf_transactions d2 \<and> transaction_keys d0 \<subseteq> transaction_keys d2"
      using rec i by (intro reconcile_transactions_keeps) auto
    then show "?Q None sh0 d2 log0" using i by auto
  next
    fix sh0 d0 log0 d2 r e
    assume i: "?I sh0 d0 log0"
      and rec: "reconcile_transactions sv c (rows sh0) d0 = (True, d2)"
    have "wf_transactions d2 \<and> transaction_keys d0 \<subseteq> transaction_keys d2"
      using rec i by (intro reconcile_transactions_keeps) auto
    then show "?Q (Some (EveapiError e)) sh0 d2
        (log0 @ [\<lparr>cursor = Some (journal_transaction_id r), storage = d2, response = Inl e\<rparr>])"
      using i by auto
  qed
qed

subsection \<open>Termination of the walk over the transactions\<close>


subsection \<open>Runs of the transactions walker\<close>



text \<open>What a run that reached the loop returns, in terms of the loop.\<close>

lemma run_wallet_transactions_cases:
  assumes "run_wallet_transactions fuel api sv invalidates c d = Some r"
  obtains (no_character) "characters d c = None"
      "r = \<lparr>outcome = Raised (DoesNotExist ''Character''), final_db = d, fetches = []\<rparr>"
    | (no_key) ch where "characters d c = Some ch" "valid_apikey d ch = None"
      "r = \<lparr>outcome = SkippedNoCredential, final_db = d, fetches = []\<rparr>"
    | (first_failed) ch k key e where "characters d c = Some ch" "valid_apikey d ch = Some (k, key)"
      "api key c 0 rowCount None = Inl e"
      "r = \<lparr>outcome = AbortedApi e, final_db = handle_api_exception invalidates e k d,
            fetches = [\<lparr>cursor = None, storage = d, response = Inl e\<rparr>]\<rparr>"
    | (walked) ch k key sh ex sh' d' log' where "characters d c = Some ch"
      "valid_apikey d ch = Some (k, key)" "api key c 0 rowCount None = Inr sh"
      "walk_transactions fuel api sv key c sh d [\<lparr>cursor = None, storage = d, response = Inr sh\<rparr>]
         = Some (ex, sh', d', log')"
      "r = finish_walk c ''WalletTransactions'' (ex, sh', d', log')"
proof (cases "characters d c")
  case None
  with assms no_character show ?thesis by (auto simp: run_wallet_transactions_def)
next
  case (Some ch)
  note ch = this
  show ?thesis
  proof (cases "valid_apikey d ch")
    case None
    with assms ch no_key show ?thesis by (auto simp: run_wallet_transactions_def)
  next
    case (Some kk)
    obtain k key where kk: "kk = (k, key)" by (cases kk)
    show ?thesis
    proof (cases "api key c 0 rowCount None")
      case (Inl e)
      with assms ch Some kk first_failed show ?thesis
        by (auto simp: run_wallet_transactions_def)
    next
      case (Inr sh)
      with assms ch Some kk obtain w where
        w: "walk_transactions fuel api sv key c sh d [\<lparr>cursor = None, storage = d, response = Inr sh\<rparr>] = Some w"
        and r: "r = finish_walk c ''WalletTransactions'' w"
        by (auto simp: run_wallet_transactions_def)
      obtain ex sh' d' log' where "w = (ex, sh', d', log')" by (cases w) auto
      with w r ch Some kk Inr walked show ?thesis by blast
    qed
  qed
qed

lemma handle_api_exception_timers: "timers (handle_api_exception invalidates e k d) = timers d"
  by (simp add: handle_api_exception_def split: option.splits)

lemma finish_walk_fetches: "fetches (finish_walk c s (ex, sh, d, log)) = log"
  by (simp add: finish_walk_def update_timer_def split: option.splits)

lemma finish_walk_Done:
  "outcome (finish_walk c s (ex, sh, d, log)) = Done \<longleftrightarrow> ex = None \<and> timers d (c, s) \<noteq> None"
  by (auto simp: finish_walk_def update_timer_def split: option.splits)

lemma finish_walk_Done_db:
  "outcome (finish_walk c s (ex, sh, d, log)) = Done \<Longrightarrow>
     final_db (finish_walk c s (ex, sh, d, log)) = d\<lparr>timers := (timers d)((c, s) \<mapsto> cachedUntil sh)\<rparr>"
  by (auto simp: finish_walk_def update_timer_def split: option.splits)

lemma finish_walk_not_Done_db:
  "outcome (finish_walk c s (ex, sh, d, log)) \<noteq> Done \<Longrightarrow>
     final_db (finish_walk c s (ex, sh, d, log)) = d"
  by (auto simp: finish_walk_def update_timer_def split: option.splits)

lemma finish_walk_Raised_Eveapi:
  "outcome (finish_walk c s (ex, sh, d, log)) = Raised (EveapiError e) \<longleftrightarrow> ex = Some (EveapiError e)"
  by (auto simp: finish_walk_def update_timer_def split: option.splits)

lemma run_wallet_transactions_timer:
  assumes run: "run_wallet_transactions fuel api sv invalidates c d = Some r"
  shows "(outcome r = Done \<longrightarrow>
            fetches r \<noteq> [] \<and>
            (\<exists>sh. response (last (fetches r)) = Inr sh \<and>
                  timers (final_db r) = (timers d)((c, ''WalletTransactions'') \<mapsto> cachedUntil sh)))
       \<and> (outcome r \<noteq> Done \<longrightarrow> timers (final_db r) = timers d)"
  using run
proof (cases rule: run_wallet_transactions_cases)
  case no_character
  then show ?thesis by simp
next
  case (no_key ch)
  then show ?thesis by simp
next
  case (first_failed ch k key e)
  then show ?thesis by (simp add: handle_api_exception_timers)
next
  case (walked ch k key sh ex sh' d' log')
  let ?log = "[\<lparr>cursor = None, storage = d, response = Inr sh\<rparr>]"
  have l: "successively (transactions_link sv c) log' \<and> log' \<noteq> [] \<and> mt_frame d d'
    \<and> take (length ?log) log' = ?log
    \<and> (case ex of
          None \<Rightarrow> response (last log') = Inr sh'
                 \<and> transactions_last_page sv c sh' (storage (last log')) d'
        | Some x \<Rightarrow> (\<exists>e. x = EveapiError e \<and> response (last log') = Inl e)
                 \<and> storage (last log') = d' \<and> length ?log < length log')"
    by (rule walk_transactions_log[OF walked(4)]) simp_all
  then have t: "timers d' = timers d" by (simp add: mt_frame_timers)
  show ?thesis
  proof (cases "outcome r = Done")
    case True
    then have ex: "ex = None" using walked(5) by (simp add: finish_walk_Done)
    have "final_db r = d'\<lparr>timers := (timers d')((c, ''WalletTransactions'') \<mapsto> cachedUntil sh')\<rparr>"
      using True walked(5) finish_walk_Done_db by blast
    then show ?thesis using True l ex t walked(5) by (simp add: finish_walk_fetches)
  next
    case False
    then have "final_db r = d'" using walked(5) finish_walk_not_Done_db by blast
    then show ?thesis using False t by simp
  qed
qed

lemma run_wallet_transactions_abort:
  assumes run: "run_wallet_transactions fuel api sv invalidates c d = Some r"
    and out: "outcome r = Raised (EveapiError e)"
  shows "2 \<le> length (fetches r) \<and> response (last (fetches r)) = Inl e
    \<and> final_db r = storage (last (fetches r)) \<and> timers (final_db r) = timers d
    \<and> successively (transactions_link sv c) (fetches r)
    \<and> (wf_transactions d \<longrightarrow>
         (\<forall>f \<in> set (fetches r). transaction_keys (storage f) \<subseteq> transaction_keys (final_db r)))"
  using run
proof (cases rule: run_wallet_transactions_cases)
  case no_character
  with out show ?thesis by simp
next
  case (no_key ch)
  with out show ?thesis by simp
next
  case (first_failed ch k key e')
  with out show ?thesis by simp
next
  case (walked ch k key sh ex sh' d' log')
  let ?log = "[\<lparr>cursor = None, storage = d, response = Inr sh\<rparr>]"
  have ex: "ex = Some (EveapiError e)"
    using out walked(5) by (simp add: finish_walk_Raised_Eveapi)
  have fin: "final_db r = d'" using out walked(5) finish_walk_not_Done_db[of c _ ex sh' d' log']
    by simp
  have fe: "fetches r = log'" using walked(5) by (simp add: finish_walk_fetches)
  have l: "successively (transactions_link sv c) log' \<and> log' \<noteq> [] \<and> mt_frame d d'
    \<and> take (length ?log) log' = ?log
    \<and> (case ex of
          None \<Rightarrow> response (last log') = Inr sh'
                 \<and> transactions_last_page sv c sh' (storage (last log')) d'
        | Some x \<Rightarrow> (\<exists>e. x = EveapiError e \<and> response (last log') = Inl e)
                 \<and> storage (last log') = d' \<and> length ?log < length log')"
    by (rule walk_transactions_log[OF walked(4)]) simp_all
  have keys: "wf_transactions d \<longrightarrow>
      (\<forall>f \<in> set log'. transaction_keys (storage f) \<subseteq> transaction_keys d')"
  proof
    assume wf: "wf_transactions d"
    note k = walk_transactions_keys[OF walked(4) wf]
    have split: "log' = ?log @ drop (length ?log) log'"
      using l by (metis append_take_drop_id)
    show "\<forall>f \<in> set log'. transaction_keys (storage f) \<subseteq> transaction_keys d'"
    proof
      fix f assume "f \<in> set log'"
      then have "f \<in> set ?log \<or> f \<in> set (drop (length ?log) log')"
        using split by (metis Un_iff set_append)
      then show "transaction_keys (storage f) \<subseteq> transaction_keys d'"
        using k by auto
    qed
  qed
  show ?thesis using l ex fin fe keys by (auto simp: mt_frame_timers)
qed




subsection \<open>Frame: what the journal walker leaves alone\<close>

lemma je_frame_refl [simp]: "je_frame d d"
  by (simp add: je_frame_def)

lemma je_frame_trans: "je_frame d d1 \<Longrightarrow> je_frame d1 d2 \<Longrightarrow> je_frame d d2"
  by (simp add: je_frame_def)

lemma je_frame_timers: "je_frame d d' \<Longrightarrow> timers d' = timers d"
  by (simp add: je_frame_def)

lemma je_frame_insert: "je_frame d (insert_journal_entry r d)"
  by (simp add: je_frame_def insert_journal_entry_def)

lemma je_frame_delete: "je_frame d (delete_journal_entry r d)"
  by (simp add: je_frame_def delete_journal_entry_def)

lemma journal_entries_delete:
  "journal_entries (delete_journal_entry r d)
     = filter (\<lambda>x. je_pk x \<noteq> je_pk r) (journal_entries d)"
  by (simp add: delete_journal_entry_def)

lemma je_seq_delete: "je_seq (delete_journal_entry r d) = je_seq d"
  by (simp add: delete_journal_entry_def)

lemma fold_delete_journal_entry:
  "journal_entries (fold delete_journal_entry xs d)
     = filter (\<lambda>x. je_pk x \<notin> je_pk ` set xs) (journal_entries d)
   \<and> je_seq (fold delete_journal_entry xs d) = je_seq d
   \<and> je_frame d (fold delete_journal_entry xs d)"
proof (induction xs arbitrary: d)
  case Nil
  then show ?case by simp
next
  case (Cons a xs)
  have "je_frame d (fold delete_journal_entry xs (delete_journal_entry a d))"
    using Cons.IH[of "delete_journal_entry a d"] je_frame_delete[of d a] je_frame_trans
    by blast
  then show ?case
    using Cons.IH[of "delete_journal_entry a d"]
    by (simp add: journal_entries_delete je_seq_delete conj_commute)
qed

lemma je_frame_remove_duplicates: "je_frame d (remove_duplicate_entries c t d)"
  by (simp add: remove_duplicate_entries_def fold_delete_journal_entry)

subsection \<open>Primary keys and the removal of duplicate journal entries\<close>

lemma wf_journal_insert: "wf_journal d \<Longrightarrow> wf_journal (insert_journal_entry r d)"
  by (fastforce simp: wf_journal_def insert_journal_entry_def)

lemma journal_keys_insert: "journal_keys d \<subseteq> journal_keys (insert_journal_entry r d)"
  by (auto simp: journal_keys_def insert_journal_entry_def)

lemma remove_duplicate_entries_rows:
  assumes "wf_journal d"
  shows "journal_entries (remove_duplicate_entries c t d)
     = filter (\<lambda>x. x \<notin> set (drop 1 (filter (\<lambda>r. ref_id r = refID t \<and> je_character r = c)
                  (journal_entries d)))) (journal_entries d)"
proof -
  let ?rows = "journal_entries d"
  let ?dups = "filter (\<lambda>r. ref_id r = refID t \<and> je_character r = c) ?rows"
  have inj: "inj_on je_pk (set ?rows)"
    using assms by (simp add: wf_journal_def distinct_map)
  have sub: "set (drop 1 ?dups) \<subseteq> set ?rows"
    using set_drop_subset[of 1 ?dups] by auto
  have "\<And>x. x \<in> set ?rows \<Longrightarrow> (je_pk x \<in> je_pk ` set (drop 1 ?dups)) = (x \<in> set (drop 1 ?dups))"
    using inj sub by (meson inj_on_image_mem_iff)
  then have "filter (\<lambda>x. je_pk x \<notin> je_pk ` set (drop 1 ?dups)) ?rows
           = filter (\<lambda>x. x \<notin> set (drop 1 ?dups)) ?rows"
    by (intro filter_cong) auto
  then show ?thesis
    by (simp add: remove_duplicate_entries_def fold_delete_journal_entry)
qed

lemma distinct_entries: "wf_journal d \<Longrightarrow> distinct (journal_entries d)"
  by (simp add: wf_journal_def distinct_map)

lemma remove_duplicate_entries_one_left:
  assumes wf: "wf_journal d"
    and some: "filter (\<lambda>r. ref_id r = refID t \<and> je_character r = c) (journal_entries d) = x # xs"
  shows "filter (\<lambda>r. ref_id r = refID t \<and> je_character r = c)
           (journal_entries (remove_duplicate_entries c t d)) = [x]"
proof -
  let ?P = "\<lambda>r. ref_id r = refID t \<and> je_character r = c"
  let ?rows = "journal_entries d"
  have dist: "distinct (x # xs)"
    using distinct_entries[OF wf] distinct_filter[of ?rows ?P] some by metis
  have d1: "drop 1 (filter ?P ?rows) = xs" using some by simp
  have "journal_entries (remove_duplicate_entries c t d) = filter (\<lambda>y. y \<notin> set xs) ?rows"
    using remove_duplicate_entries_rows[OF wf, of c t] unfolding d1 .
  then have "filter ?P (journal_entries (remove_duplicate_entries c t d))
      = filter ?P (filter (\<lambda>y. y \<notin> set xs) ?rows)" by (rule arg_cong)
  also have "\<dots> = filter (\<lambda>y. y \<notin> set xs) (filter ?P ?rows)"
    by (simp only: filter_filter conj_commute)
  also have "\<dots> = filter (\<lambda>y. y \<notin> set xs) (x # xs)" using some by simp
  also have "\<dots> = [x]" using dist by (simp add: filter_empty_conv)
  finally show ?thesis .
qed

lemma wf_journal_remove_duplicates:
  assumes "wf_journal d"
  shows "wf_journal (remove_duplicate_entries c t d)"
proof -
  have "je_seq (remove_duplicate_entries c t d) = je_seq d"
    by (simp add: remove_duplicate_entries_def fold_delete_journal_entry)
  then show ?thesis
    using assms unfolding wf_journal_def remove_duplicate_entries_rows[OF assms]
    by (simp add: distinct_map_filter)
qed

lemma journal_keys_remove_duplicates:
  assumes wf: "wf_journal d"
  shows "journal_keys (remove_duplicate_entries c t d) = journal_keys d"
proof -
  let ?P = "\<lambda>r. ref_id r = refID t \<and> je_character r = c"
  let ?rows = "journal_entries d"
  let ?rows' = "journal_entries (remove_duplicate_entries c t d)"
  have rows': "?rows' = filter (\<lambda>x. x \<notin> set (drop 1 (filter ?P ?rows))) ?rows"
    by (rule remove_duplicate_entries_rows[OF wf])
  have "journal_keys d \<subseteq> journal_keys (remove_duplicate_entries c t d)"
  proof
    fix k assume "k \<in> journal_keys d"
    then obtain y where y: "y \<in> set ?rows" "k = (je_character y, ref_id y)"
      by (auto simp: journal_keys_def)
    show "k \<in> journal_keys (remove_duplicate_entries c t d)"
    proof (cases "y \<in> set (drop 1 (filter ?P ?rows))")
      case False
      with y have "y \<in> set ?rows'" by (simp add: rows')
      with y show ?thesis by (auto simp: journal_keys_def)
    next
      case True
      then have "y \<in> set (filter ?P ?rows)" by (meson in_set_dropD)
      then have py: "?P y" by simp
      from True obtain x xs where some: "filter ?P ?rows = x # xs"
        by (cases "filter ?P ?rows") auto
      then have "filter ?P ?rows' = [x]"
        using remove_duplicate_entries_one_left[OF wf] by blast
      then have "x \<in> set (filter ?P ?rows')" by simp
      then have px: "x \<in> set ?rows' \<and> ?P x" by simp
      then have "(je_character x, ref_id x) \<in> journal_keys (remove_duplicate_entries c t d)"
        unfolding journal_keys_def by (intro imageI) simp
      moreover have "k = (je_character x, ref_id x)" using py y px by simp
      ultimately show ?thesis by simp
    qed
  qed
  moreover have "journal_keys (remove_duplicate_entries c t d) \<subseteq> journal_keys d"
    by (auto simp: journal_keys_def rows')
  ultimately show ?thesis by blast
qed

subsection \<open>One page of the journal\<close>

lemma process_journal_keeps:
  "process_journal sv c ex page w d = (w', d', x) \<Longrightarrow> wf_journal d \<Longrightarrow>
     je_frame d d' \<and> wf_journal d' \<and> journal_keys d \<subseteq> journal_keys d'"
proof (induction page arbitrary: w d)
  case Nil
  then show ?case by simp
next
  case (Cons t ts)
  show ?case
  proof (cases "refID t \<in> set ex")
    case True
    with Cons show ?thesis by simp
  next
    case False
    show ?thesis
    proof (cases "sv d (new_journal_entry c t)")
      case Saved
      let ?d1 = "insert_journal_entry (new_journal_entry c t) d"
      from Saved False Cons.prems have "process_journal sv c ex ts w ?d1 = (w', d', x)"
        by simp
      moreover have "wf_journal ?d1" using Cons.prems(2) by (rule wf_journal_insert)
      ultimately have "je_frame ?d1 d' \<and> wf_journal d' \<and> journal_keys ?d1 \<subseteq> journal_keys d'"
        by (rule Cons.IH)
      then show ?thesis
        using journal_keys_insert[of d "new_journal_entry c t"]
          je_frame_insert[of d "new_journal_entry c t"] je_frame_trans by blast
    next
      case IntegrityError
      with False Cons.prems show ?thesis by auto
    next
      case MultipleObjectsReturned
      let ?d1 = "remove_duplicate_entries c t d"
      from MultipleObjectsReturned False Cons.prems have
        "process_journal sv c ex ts w ?d1 = (w', d', x)" by simp
      moreover have "wf_journal ?d1" using Cons.prems(2) by (rule wf_journal_remove_duplicates)
      ultimately have "je_frame ?d1 d' \<and> wf_journal d' \<and> journal_keys ?d1 \<subseteq> journal_keys d'"
        by (rule Cons.IH)
      then show ?thesis
        using journal_keys_remove_duplicates[OF Cons.prems(2), of c t]
          je_frame_remove_duplicates[of d c t] je_frame_trans by auto
    qed
  qed
qed

lemma je_frame_process:
  "process_journal sv c ex page w d = (w', d', x) \<Longrightarrow> je_frame d d'"
proof (induction page arbitrary: w d)
  case Nil
  then show ?case by simp
next
  case (Cons t ts)
  show ?case
  proof (cases "refID t \<in> set ex")
    case True
    with Cons show ?thesis by simp
  next
    case False
    show ?thesis
    proof (cases "sv d (new_journal_entry c t)")
      case Saved
      with False Cons.prems have
        "process_journal sv c ex ts w (insert_journal_entry (new_journal_entry c t) d) = (w', d', x)"
        by simp
      from Cons.IH[OF this] show ?thesis
        using je_frame_insert je_frame_trans by blast
    next
      case IntegrityError
      with False Cons.prems show ?thesis by auto
    next
      case MultipleObjectsReturned
      with False Cons.prems have
        "process_journal sv c ex ts w (remove_duplicate_entries c t d) = (w', d', x)"
        by simp
      from Cons.IH[OF this] show ?thesis
        using je_frame_remove_duplicates je_frame_trans by blast
    qed
  qed
qed



subsection \<open>A proof rule for the loop of the journal walker\<close>

lemma walk_journal_rule:
  assumes run: "walk_journal n api sv key c sh d log = Some (ex, sh', d', log')"
    and init: "I sh d log"
    and next_page: "\<And>sh d log d2 r sh2.
        I sh d log \<Longrightarrow> rows sh \<noteq> [] \<Longrightarrow>
        process_journal sv c (existing_ref_ids c d) (rows sh) True d = (True, d2, None) \<Longrightarrow>
        oldest_entry c d2 = Some r \<Longrightarrow>
        api key c (length log) rowCount (Some (ref_id r)) = Inr sh2 \<Longrightarrow>
        I sh2 d2 (log @ [\<lparr>cursor = Some (ref_id r), storage = d2, response = Inr sh2\<rparr>])"
    and empty_page: "\<And>sh d log. I sh d log \<Longrightarrow> rows sh = [] \<Longrightarrow> Q None sh d log"
    and raised: "\<And>sh d log w d2 x.
        I sh d log \<Longrightarrow> rows sh \<noteq> [] \<Longrightarrow>
        process_journal sv c (existing_ref_ids c d) (rows sh) True d = (w, d2, Some x) \<Longrightarrow>
        Q (Some x) sh d2 log"
    and known: "\<And>sh d log d2.
        I sh d log \<Longrightarrow> rows sh \<noteq> [] \<Longrightarrow>
        process_journal sv c (existing_ref_ids c d) (rows sh) True d = (False, d2, None) \<Longrightarrow>
        Q None sh d2 log"
    and no_rows: "\<And>sh d log d2.
        I sh d log \<Longrightarrow> rows sh \<noteq> [] \<Longrightarrow>
        process_journal sv c (existing_ref_ids c d) (rows sh) True d = (True, d2, None) \<Longrightarrow>
        oldest_entry c d2 = None \<Longrightarrow> Q (Some PyIndexError) sh d2 log"
    and failed: "\<And>sh d log d2 r e.
        I sh d log \<Longrightarrow> rows sh \<noteq> [] \<Longrightarrow>
        process_journal sv c (existing_ref_ids c d) (rows sh) True d = (True, d2, None) \<Longrightarrow>
        oldest_entry c d2 = Some r \<Longrightarrow>
        api key c (length log) rowCount (Some (ref_id r)) = Inl e \<Longrightarrow>
        Q (Some (EveapiError e)) sh d2
          (log @ [\<lparr>cursor = Some (ref_id r), storage = d2, response = Inl e\<rparr>])"
  shows "Q ex sh' d' log'"
  using run init
proof (induction n arbitrary: sh d log)
  case 0
  then show ?case by simp
next
  case (Suc n)
  show ?case
  proof (cases "rows sh = []")
    case True
    with Suc.prems empty_page[of sh d log] show ?thesis by simp
  next
    case False
    obtain w d2 x where p:
      "process_journal sv c (existing_ref_ids c d) (rows sh) True d = (w, d2, x)"
      by (cases "process_journal sv c (existing_ref_ids c d) (rows sh) True d")
    show ?thesis
    proof (cases x)
      case (Some xx)
      with Suc.prems \<open>rows sh \<noteq> []\<close> p raised[of sh d log w d2 xx] show ?thesis by auto
    next
      case None
      note x = this
      show ?thesis
      proof (cases w)
        case False
        with Suc.prems \<open>rows sh \<noteq> []\<close> p x known[of sh d log d2] show ?thesis by auto
      next
        case True
        note w = this
        show ?thesis
        proof (cases "oldest_entry c d2")
          case None
          with Suc.prems \<open>rows sh \<noteq> []\<close> p x w no_rows[of sh d log d2] show ?thesis by auto
        next
          case (Some r)
          show ?thesis
          proof (cases "api key c (length log) rowCount (Some (ref_id r))")
            case (Inl e)
            with Suc.prems \<open>rows sh \<noteq> []\<close> p x w Some failed[of sh d log d2 r e]
            show ?thesis by auto
          next
            case (Inr sh2)
            let ?log = "log @ [\<lparr>cursor = Some (ref_id r), storage = d2, response = Inr sh2\<rparr>]"
            have "walk_journal n api sv key c sh2 d2 ?log = Some (ex, sh', d', log')"
              using Suc.prems(1) \<open>rows sh \<noteq> []\<close> p x w Some Inr by simp
            moreover have "I sh2 d2 ?log"
              using next_page[of sh d log d2 r sh2] Suc.prems(2) \<open>rows sh \<noteq> []\<close> p x w Some Inr
              by simp
            ultimately show ?thesis by (rule Suc.IH)
          qed
        qed
      qed
    qed
  qed
qed

lemma process_journal_exn:
  "process_journal sv c ex page w d = (w', d', Some x) \<Longrightarrow> x = DbIntegrityError"
proof (induction page arbitrary: w d)
  case Nil
  then show ?case by simp
next
  case (Cons t ts)
  show ?case
  proof (cases "refID t \<in> set ex")
    case True
    with Cons show ?thesis by simp
  next
    case False
    then show ?thesis using Cons by (cases "sv d (new_journal_entry c t)") auto
  qed
qed

subsection \<open>The log of a walk over the journal\<close>

lemma walk_journal_log:
  assumes run: "walk_journal n api sv key c sh d log = Some (ex, sh', d', log')"
    and log: "log \<noteq> []" "response (last log) = Inr sh" "storage (last log) = d"
      "successively (journal_link sv c) log"
  shows "successively (journal_link sv c) log' \<and> log' \<noteq> [] \<and> je_frame d d'
    \<and> take (length log) log' = log
    \<and> (ex = None \<longrightarrow> response (last log') = Inr sh')
    \<and> (\<forall>e. ex = Some (EveapiError e) \<longrightarrow>
          response (last log') = Inl e \<and> storage (last log') = d' \<and> length log < length log')"
proof -
  let ?I = "\<lambda>sh0 d0 log0. log0 \<noteq> [] \<and> response (last log0) = Inr sh0 \<and> storage (last log0) = d0
      \<and> successively (journal_link sv c) log0 \<and> je_frame d d0
      \<and> length log \<le> length log0 \<and> take (length log) log0 = log"
  let ?Q = "\<lambda>ex sh0 d0 log0. successively (journal_link sv c) log0 \<and> log0 \<noteq> [] \<and> je_frame d d0
    \<and> take (length log) log0 = log
    \<and> (ex = None \<longrightarrow> response (last log0) = Inr sh0)
    \<and> (\<forall>e. ex = Some (EveapiError e) \<longrightarrow>
          response (last log0) = Inl e \<and> storage (last log0) = d0 \<and> length log < length log0)"
  show ?thesis
  proof (rule walk_journal_rule[where I = ?I and Q = ?Q, OF run])
    show "?I sh d log" using log by simp
  next
    fix sh0 d0 log0 d2 r and sh2 :: "journal_row sheet"
    assume i: "?I sh0 d0 log0" and ne: "rows sh0 \<noteq> []"
      and p: "process_journal sv c (existing_ref_ids c d0) (rows sh0) True d0 = (True, d2, None)"
    let ?e = "\<lparr>cursor = Some (ref_id r), storage = d2, response = Inr sh2\<rparr>"
    have "journal_link sv c (last log0) ?e"
      using i ne p by (simp add: journal_link_def)
    moreover have "je_frame d d2"
      using i je_frame_process[OF p] je_frame_trans by blast
    ultimately show "?I sh2 d2 (log0 @ [?e])"
      using i by (simp add: successively_append_iff)
  next
    fix sh0 d0 log0
    assume "?I sh0 d0 log0" and "rows sh0 = []"
    then show "?Q None sh0 d0 log0" by simp
  next
    fix sh0 d0 log0 w d2 x
    assume i: "?I sh0 d0 log0"
      and p: "process_journal sv c (existing_ref_ids c d0) (rows sh0) True d0 = (w, d2, Some x)"
    have "je_frame d d2"
      using i je_frame_process[OF p] je_frame_trans by blast
    moreover have "x = DbIntegrityError" using p by (rule process_journal_exn)
    ultimately show "?Q (Some x) sh0 d2 log0" using i by simp
  next
    fix sh0 d0 log0 d2
    assume i: "?I sh0 d0 log0"
      and p: "process_journal sv c (existing_ref_ids c d0) (rows sh0) True d0 = (False, d2, None)"
    have "je_frame d d2"
      using i je_frame_process[OF p] je_frame_trans by blast
    then show "?Q None sh0 d2 log0" using i by simp
  next
    fix sh0 d0 log0 d2
    assume i: "?I sh0 d0 log0"
      and p: "process_journal sv c (existing_ref_ids c d0) (rows sh0) True d0 = (True, d2, None)"
    have "je_frame d d2"
      using i je_frame_process[OF p] je_frame_trans by blast
    then show "?Q (Some PyIndexError) sh0 d2 log0" using i by simp
  next
    fix sh0 d0 log0 d2 r e
    assume i: "?I sh0 d0 log0" and ne: "rows sh0 \<noteq> []"
      and p: "process_journal sv c (existing_ref_ids c d0) (rows sh0) True d0 = (True, d2, None)"
    let ?e = "\<lparr>cursor = Some (ref_id r), storage = d2,
                response = Inl e\<rparr> :: journal_row fetch"
    have "journal_link sv c (last log0) ?e"
      using i ne p by (simp add: journal_link_def)
    moreover have "je_frame d d2"
      using i je_frame_process[OF p] je_frame_trans by blast
    ultimately show "?Q (Some (EveapiError e)) sh0 d2 (log0 @ [?e])"
      using i by (simp add: successively_append_iff)
  qed
qed

subsection \<open>The cursor of the journal walker\<close>



subsection \<open>Keys persist along a walk over the journal\<close>

lemma walk_journal_keys:
  assumes run: "walk_journal n api sv key c sh d log = Some (ex, sh', d', log')"
    and wf: "wf_journal d"
  shows "wf_journal d' \<and> journal_keys d \<subseteq> journal_keys d'
    \<and> (\<forall>f \<in> set (drop (length log) log'). journal_keys (storage f) \<subseteq> journal_keys d')"
proof -
  let ?I = "\<lambda>(sh0::journal_row sheet) d0 (log0::journal_row fetch list).
      length log \<le> length log0 \<and> wf_journal d0 \<and> journal_keys d \<subseteq> journal_keys d0
      \<and> (\<forall>f \<in> set (drop (length log) log0). journal_keys (storage f) \<subseteq> journal_keys d0)"
  let ?Q = "\<lambda>(ex::exn option) (sh0::journal_row sheet) d0 (log0::journal_row fetch list).
      wf_journal d0 \<and> journal_keys d \<subseteq> journal_keys d0
      \<and> (\<forall>f \<in> set (drop (length log) log0). journal_keys (storage f) \<subseteq> journal_keys d0)"
  have step: "\<And>sh0 d0 log0 w d2 x.
      ?I sh0 d0 log0 \<Longrightarrow>
      process_journal sv c (existing_ref_ids c d0) (rows sh0) True d0 = (w, d2, x) \<Longrightarrow>
      wf_journal d2 \<and> journal_keys d \<subseteq> journal_keys d2
      \<and> (\<forall>f \<in> set (drop (length log) log0). journal_keys (storage f) \<subseteq> journal_keys d2)"
  proof -
    fix sh0 d0 log0 w d2 x
    assume i: "?I sh0 d0 log0"
      and p: "process_journal sv c (existing_ref_ids c d0) (rows sh0) True d0 = (w, d2, x)"
    have "wf_journal d0" using i by simp
    from process_journal_keeps[OF p this]
    have "wf_journal d2 \<and> journal_keys d0 \<subseteq> journal_keys d2" by simp
    then show "wf_journal d2 \<and> journal_keys d \<subseteq> journal_keys d2
      \<and> (\<forall>f \<in> set (drop (length log) log0). journal_keys (storage f) \<subseteq> journal_keys d2)"
      using i by auto
  qed
  show ?thesis
  proof (rule walk_journal_rule[where I = ?I and Q = ?Q, OF run])
    show "?I sh d log" using wf by simp
  next
    fix sh0 d0 log0 d2 r and sh2 :: "journal_row sheet"
    assume i: "?I sh0 d0 log0"
      and p: "process_journal sv c (existing_ref_ids c d0) (rows sh0) True d0 = (True, d2, None)"
    from step[OF i p] i
    show "?I sh2 d2 (log0 @ [\<lparr>cursor = Some (ref_id r), storage = d2, response = Inr sh2\<rparr>])"
      by auto
  next
    fix sh0 d0 log0
    assume "?I sh0 d0 log0"
    then show "?Q None sh0 d0 log0" by simp
  next
    fix sh0 d0 log0 w d2 x
    assume i: "?I sh0 d0 log0"
      and p: "process_journal sv c (existing_ref_ids c d0) (rows sh0) True d0 = (w, d2, Some x)"
    from step[OF i p] show "?Q (Some x) sh0 d2 log0" by simp
  next
    fix sh0 d0 log0 d2
    assume i: "?I sh0 d0 log0"
      and p: "process_journal sv c (existing_ref_ids c d0) (rows sh0) True d0 = (False, d2, None)"
    from step[OF i p] show "?Q None sh0 d2 log0" by simp
  next
    fix sh0 d0 log0 d2
    assume i: "?I sh0 d0 log0"
      and p: "process_journal sv c (existing_ref_ids c d0) (rows sh0) True d0 = (True, d2, None)"
    from step[OF i p] show "?Q (Some PyIndexError) sh0 d2 log0" by simp
  next
    fix sh0 d0 log0 d2 r e
    assume i: "?I sh0 d0 log0"
      and p: "process_journal sv c (existing_ref_ids c d0) (rows sh0) True d0 = (True, d2, None)"
    from step[OF i p] i
    show "?Q (Some (EveapiError e)) sh0 d2
        (log0 @ [\<lparr>cursor = Some (ref_id r), storage = d2, response = Inl e\<rparr>])"
      by auto
  qed
qed

subsection \<open>Termination of the walk over the journal\<close>


subsection \<open>Runs of the journal walker\<close>


lemma run_wallet_journal_cases:
  assumes "run_wallet_journal fuel api sv invalidates c d = Some r"
  obtains (no_character) "characters d c = None"
      "r = \<lparr>outcome = Raised (DoesNotExist ''Character''), final_db = d, fetches = []\<rparr>"
    | (no_key) ch where "characters d c = Some ch" "valid_apikey d ch = None"
      "r = \<lparr>outcome = SkippedNoCredential, final_db = d, fetches = []\<rparr>"
    | (first_failed) ch k key e where "characters d c = Some ch" "valid_apikey d ch = Some (k, key)"
      "api key c 0 rowCount None = Inl e"
      "r = \<lparr>outcome = AbortedApi e, final_db = handle_api_exception invalidates e k d,
            fetches = [\<lparr>cursor = None, storage = d, response = Inl e\<rparr>]\<rparr>"
    | (walked) ch k key sh ex sh' d' log' where "characters d c = Some ch"
      "valid_apikey d ch = Some (k, key)" "api key c 0 rowCount None = Inr sh"
      "walk_journal fuel api sv key c sh d [\<lparr>cursor = None, storage = d, response = Inr sh\<rparr>]
         = Some (ex, sh', d', log')"
      "r = finish_walk c ''WalletJournal'' (ex, sh', d', log')"
proof (cases "characters d c")
  case None
  with assms no_character show ?thesis by (auto simp: run_wallet_journal_def)
next
  case (Some ch)
  note ch = this
  show ?thesis
  proof (cases "valid_apikey d ch")
    case None
    with assms ch no_key show ?thesis by (auto simp: run_wallet_journal_def)
  next
    case (Some kk)
    obtain k key where kk: "kk = (k, key)" by (cases kk)
    show ?thesis
    proof (cases "api key c 0 rowCount None")
      case (Inl e)
      with assms ch Some kk first_failed show ?thesis
        by (auto simp: run_wallet_journal_def)
    next
      case (Inr sh)
      with assms ch Some kk obtain w where
        w: "walk_journal fuel api sv key c sh d [\<lparr>cursor = None, storage = d, response = Inr sh\<rparr>] = Some w"
        and r: "r = finish_walk c ''WalletJournal'' w"
        by (auto simp: run_wallet_journal_def)
      obtain ex sh' d' log' where "w = (ex, sh', d', log')" by (cases w) auto
      with w r ch Some kk Inr walked show ?thesis by blast
    qed
  qed
qed

lemma run_wallet_journal_timer:
  assumes run: "run_wallet_journal fuel api sv invalidates c d = Some r"
  shows "(outcome r = Done \<longrightarrow>
            fetches r \<noteq> [] \<and>
            (\<exists>sh. response (last (fetches r)) = Inr sh \<and>
                  timers (final_db r) = (timers d)((c, ''WalletJournal'') \<mapsto> cachedUntil sh)))
       \<and> (outcome r \<noteq> Done \<longrightarrow> timers (final_db r) = timers d)"
  using run
proof (cases rule: run_wallet_journal_cases)
  case no_character
  then show ?thesis by simp
next
  case (no_key ch)
  then show ?thesis by simp
next
  case (first_failed ch k key e)
  then show ?thesis by (simp add: handle_api_exception_timers)
next
  case (walked ch k key sh ex sh' d' log')
  let ?log = "[\<lparr>cursor = None, storage = d, response = Inr sh\<rparr>]"
  have l: "successively (journal_link sv c) log' \<and> log' \<noteq> [] \<and> je_frame d d'
    \<and> take (length ?log) log' = ?log
    \<and> (ex = None \<longrightarrow> response (last log') = Inr sh')
    \<and> (\<forall>e. ex = Some (EveapiError e) \<longrightarrow>
          response (last log') = Inl e \<and> storage (last log') = d' \<and> length ?log < length log')"
    by (rule walk_journal_log[OF walked(4)]) simp_all
  then have t: "timers d' = timers d" by (simp add: je_frame_timers)
  show ?thesis
  proof (cases "outcome r = Done")
    case True
    then have ex: "ex = None" using walked(5) by (simp add: finish_walk_Done)
    have "final_db r = d'\<lparr>timers := (timers d')((c, ''WalletJournal'') \<mapsto> cachedUntil sh')\<rparr>"
      using True walked(5) finish_walk_Done_db by blast
    then show ?thesis using True l ex t walked(5) by (simp add: finish_walk_fetches)
  next
    case False
    then have "final_db r = d'" using walked(5) finish_walk_not_Done_db by blast
    then show ?thesis using False t by simp
  qed
qed

lemma run_wallet_journal_abort:
  assumes run: "run_wallet_journal fuel api sv invalidates c d = Some r"
    and out: "outcome r = Raised (EveapiError e)"
  shows "2 \<le> length (fetches r) \<and> response (last (fetches r)) = Inl e
    \<and> final_db r = storage (last (fetches r)) \<and> timers (final_db r) = timers d
    \<and> successively (journal_link sv c) (fetches r)
    \<and> (wf_journal d \<longrightarrow>
         (\<forall>f \<in> set (fetches r). journal_keys (storage f) \<subseteq> journal_keys (final_db r)))"
  using run
proof (cases rule: run_wallet_journal_cases)
  case no_character
  with out show ?thesis by simp
next
  case (no_key ch)
  with out show ?thesis by simp
next
  case (first_failed ch k key e')
  with out show ?thesis by simp
next
  case (walked ch k key sh ex sh' d' log')
  let ?log = "[\<lparr>cursor = None, storage = d, response = Inr sh\<rparr>]"
  have ex: "ex = Some (EveapiError e)"
    using out walked(5) by (simp add: finish_walk_Raised_Eveapi)
  have fin: "final_db r = d'" using out walked(5) finish_walk_not_Done_db[of c _ ex sh' d' log']
    by simp
  have fe: "fetches r = log'" using walked(5) by (simp add: finish_walk_fetches)
  have l: "successively (journal_link sv c) log' \<and> log' \<noteq> [] \<and> je_frame d d'
    \<and> take (length ?log) log' = ?log
    \<and> (ex = None \<longrightarrow> response (last log') = Inr sh')
    \<and> (\<forall>e. ex = Some (EveapiError e) \<longrightarrow>
          response (last log') = Inl e \<and> storage (last log') = d' \<and> length ?log < length log')"
    by (rule walk_journal_log[OF walked(4)]) simp_all
  have keys: "wf_journal d \<longrightarrow> (\<forall>f \<in> set log'. journal_keys (storage f) \<subseteq> journal_keys d')"
  proof
    assume wf: "wf_journal d"
    note k = walk_journal_keys[OF walked(4) wf]
    have split: "log' = ?log @ drop (length ?log) log'"
      using l by (metis append_take_drop_id)
    show "\<forall>f \<in> set log'. journal_keys (storage f) \<subseteq> journal_keys d'"
    proof
      fix f assume "f \<in> set log'"
      then have "f \<in> set ?log \<or> f \<in> set (drop (length ?log) log')"
        using split by (metis Un_iff set_append)
      then show "journal_keys (storage f) \<subseteq> journal_keys d'"
        using k by auto
    qed
  qed
  show ?thesis using l ex fin fe keys by (auto simp: je_frame_timers)
qed




subsection \<open>Unfolding the examples\<close>

lemmas example_defs =
  txn_def jrow_def history_db_def base_db_def pilot_def pilot_key_def pages_api_def
  failing_api_def feed_api_def never_invalidate_def accept_all_def transaction_ids_def
  journal_ids_def rowCount_def

lemmas walker_defs =
  run_wallet_transactions_def run_wallet_journal_def valid_apikey_def finish_walk_def
  update_timer_def reconcile_transactions_def existing_transaction_ids_def
  character_transactions_def oldest_transaction_def new_market_transaction_def
  insert_market_transaction_def existing_ref_ids_def character_entries_def oldest_entry_def
  new_journal_entry_def insert_journal_entry_def handle_api_exception_def

subsection \<open>Pages, requests, partial progress and the cursor\<close>









lemmas run_defs =
  fresh_transactions_run_def fresh_journal_run_def aborted_transactions_run_def
  aborted_journal_run_def refused_transactions_run_def refused_journal_run_def

lemmas more_run_defs =
  unknown_type_transactions_run_def unknown_type_journal_run_def repeated_transactions_run_def
  repeated_journal_run_def sde_outdated_def ref_types_outdated_def twice_stored_transaction_def
  twice_stored_entry_def remove_duplicate_transactions_def remove_duplicate_entries_def
  delete_market_transaction_def delete_journal_entry_def

text \<open>
  Claim C5 holds for the wallet-transactions walker and fails for the wallet-journal walker.
  The first record of the page has a type the store does not know, the second is new. The
  transactions walker skips the first and stores the second (102). The journal walker has no
  handler for \<^verbatim>\<open>IntegrityError\<close>: the run ends with that exception, the second record is not
  stored and the timer keeps its value.
\<close>

theorem journal_integrity_error_ends_run:
  "unknown_type_transactions_run = Some (the unknown_type_transactions_run)
   \<and> outcome (the unknown_type_transactions_run) = Done
   \<and> transaction_ids (final_db (the unknown_type_transactions_run)) = [100, 101, 102]
   \<and> unknown_type_journal_run = Some (the unknown_type_journal_run)
   \<and> outcome (the unknown_type_journal_run) = Raised DbIntegrityError
   \<and> journal_ids (final_db (the unknown_type_journal_run)) = [100, 101]
   \<and> timers (final_db (the unknown_type_journal_run)) (1, ''WalletJournal'') = Some 10"
proof -
  have "unknown_type_transactions_run \<noteq> None" "unknown_type_journal_run \<noteq> None"
    by (simp_all add: more_run_defs example_defs walker_defs numeral_3_eq_3)
  moreover have "outcome (the unknown_type_transactions_run) = Done"
    "transaction_ids (final_db (the unknown_type_transactions_run)) = [100, 101, 102]"
    by (simp_all add: more_run_defs example_defs walker_defs numeral_3_eq_3)
  moreover have "outcome (the unknown_type_journal_run) = Raised DbIntegrityError"
    "journal_ids (final_db (the unknown_type_journal_run)) = [100, 101]"
    "timers (final_db (the unknown_type_journal_run)) (1, ''WalletJournal'') = Some 10"
    by (simp_all add: more_run_defs example_defs walker_defs numeral_3_eq_3)
  ultimately show ?thesis by simp
qed


text \<open>
  Claim C4. When a run of either walker ends with an error of the remote service at a request
  after the first, at least two requests were made and the last one failed; the storage of
  each request is what reconciling the page before it made of the storage before; the final
  storage is the storage at the failed request, so nothing of the earlier pages is undone;
  the timers are those of the start; and, for a well-formed table, every key (character,
  remote id) stored at the time of any request of the run is still stored at the end.
\<close>

theorem failed_fetch_keeps_earlier_pages:
  "(run_wallet_transactions fuel api sv invalidates c d = Some r
      \<and> outcome r = Raised (EveapiError e) \<longrightarrow>
        2 \<le> length (fetches r) \<and> response (last (fetches r)) = Inl e
      \<and> successively (transactions_link sv c) (fetches r)
      \<and> final_db r = storage (last (fetches r))
      \<and> timers (final_db r) = timers d
      \<and> (wf_transactions d \<longrightarrow>
           (\<forall>f \<in> set (fetches r). transaction_keys (storage f) \<subseteq> transaction_keys (final_db r))))
   \<and> (run_wallet_journal fuel api' sv' invalidates c d = Some r'
      \<and> outcome r' = Raised (EveapiError e') \<longrightarrow>
        2 \<le> length (fetches r') \<and> response (last (fetches r')) = Inl e'
      \<and> successively (journal_link sv' c) (fetches r')
      \<and> final_db r' = storage (last (fetches r'))
      \<and> timers (final_db r') = timers d
      \<and> (wf_journal d \<longrightarrow>
           (\<forall>f \<in> set (fetches r'). journal_keys (storage f) \<subseteq> journal_keys (final_db r'))))"
  using run_wallet_transactions_abort[of fuel api sv invalidates c d r e]
    run_wallet_journal_abort[of fuel api' sv' invalidates c d r' e']
  by blast

text \<open>Witness for C4: the second request fails after the records 103 and 102 of the first
  page were stored.\<close>

theorem failed_fetch_keeps_earlier_pages_witness:
  "aborted_transactions_run = Some (the aborted_transactions_run)
   \<and> outcome (the aborted_transactions_run) = Raised (EveapiError TransientError)
   \<and> wf_transactions history_db
   \<and> map (transaction_ids \<circ> storage) (fetches (the aborted_transactions_run))
        = [[100, 101], [100, 101, 103, 102]]
   \<and> transaction_ids (final_db (the aborted_transactions_run)) = [100, 101, 103, 102]
   \<and> timers (final_db (the aborted_transactions_run)) = timers history_db
   \<and> aborted_journal_run = Some (the aborted_journal_run)
   \<and> outcome (the aborted_journal_run) = Raised (EveapiError TransientError)
   \<and> wf_journal history_db
   \<and> journal_ids (final_db (the aborted_journal_run)) = [100, 101, 103, 102]
   \<and> timers (final_db (the aborted_journal_run)) = timers history_db"
proof -
  have n: "aborted_transactions_run \<noteq> None" "aborted_journal_run \<noteq> None"
    by (simp_all add: run_defs example_defs walker_defs numeral_3_eq_3)
  have o: "outcome (the aborted_transactions_run) = Raised (EveapiError TransientError)"
    "outcome (the aborted_journal_run) = Raised (EveapiError TransientError)"
    by (simp_all add: run_defs example_defs walker_defs numeral_3_eq_3)
  have wf: "wf_transactions history_db" "wf_journal history_db"
    by (simp_all add: wf_transactions_def wf_journal_def example_defs
        new_market_transaction_def new_journal_entry_def)
  have ids: "map (transaction_ids \<circ> storage) (fetches (the aborted_transactions_run))
        = [[100, 101], [100, 101, 103, 102]]"
    "journal_ids (storage (last (fetches (the aborted_journal_run)))) = [100, 101, 103, 102]"
    "transaction_ids (storage (last (fetches (the aborted_transactions_run)))) = [100, 101, 103, 102]"
    by (simp_all add: run_defs example_defs walker_defs numeral_3_eq_3)
  have s1: "run_wallet_transactions 3 (failing_api [[txn 103 1003 34, txn 102 1002 34]] 1) accept_all
       never_invalidate 1 history_db = Some (the aborted_transactions_run)"
    using n by (simp add: aborted_transactions_run_def)
  have s2: "run_wallet_journal 3 (failing_api [[jrow 103 1003 10, jrow 102 1002 10]] 1) accept_all
       never_invalidate 1 history_db = Some (the aborted_journal_run)"
    using n by (simp add: aborted_journal_run_def)
  note t = failed_fetch_keeps_earlier_pages[of 3
      "failing_api [[txn 103 1003 34, txn 102 1002 34]] 1" accept_all never_invalidate 1
      history_db "the aborted_transactions_run" TransientError
      "failing_api [[jrow 103 1003 10, jrow 102 1002 10]] 1" accept_all
      "the aborted_journal_run" TransientError]
  have a: "final_db (the aborted_transactions_run) = storage (last (fetches (the aborted_transactions_run)))"
    "timers (final_db (the aborted_transactions_run)) = timers history_db"
    using t s1 o(1) by blast+
  have b: "final_db (the aborted_journal_run) = storage (last (fetches (the aborted_journal_run)))"
    "timers (final_db (the aborted_journal_run)) = timers history_db"
    using t s2 o(2) by blast+
  show ?thesis using n o wf ids a b by simp
qed



subsection \<open>The market-orders task and the timer\<close>

lemma save_character_order_timers: "timers (save_character_order c ord d) = timers d"
  by (simp add: save_character_order_def split: option.splits)

lemma import_orders_timers:
  "import_orders sv clock c i os d = (ex, d') \<Longrightarrow> timers d' = timers d"
proof (induction os arbitrary: i d)
  case Nil
  then show ?case by simp
next
  case (Cons ord rest)
  show ?case
  proof (cases "orders d (orderID ord)")
    case (Some row)
    let ?d1 = "save_character_order c ord
               (d\<lparr>orders := (orders d)(orderID ord \<mapsto> refresh_order (clock i) ord row)\<rparr>)"
    from Some Cons.prems have "import_orders sv clock c (Suc i) rest ?d1 = (ex, d')" by simp
    from Cons.IH[OF this] show ?thesis by (simp add: save_character_order_timers)
  next
    case None
    note no_order = this
    show ?thesis
    proof (cases "stations d (orderStationID ord)")
      case None
      with no_order Cons.prems show ?thesis by simp
    next
      case (Some st)
      show ?thesis
      proof (cases "sv d (new_order (clock i) st ord)")
        case Saved
        let ?d1 = "save_character_order c ord
               (d\<lparr>orders := (orders d)(orderID ord \<mapsto> new_order (clock i) st ord)\<rparr>)"
        from Saved Some no_order Cons.prems
        have "import_orders sv clock c (Suc i) rest ?d1 = (ex, d')" by simp
        from Cons.IH[OF this] show ?thesis by (simp add: save_character_order_timers)
      next
        case IntegrityError
        with Some no_order Cons.prems
        have "import_orders sv clock c (Suc i) rest d = (ex, d')" by simp
        from Cons.IH[OF this] show ?thesis .
      next
        case MultipleObjectsReturned
        with Some no_order Cons.prems show ?thesis by simp
      qed
    qed
  qed
qed

lemma run_market_orders_timer:
  "(outcome (run_market_orders api sv clock invalidates c d) = Done \<longrightarrow>
      (\<exists>f sh. fetches (run_market_orders api sv clock invalidates c d) = [f]
          \<and> response f = Inr sh
          \<and> timers (final_db (run_market_orders api sv clock invalidates c d))
              = (timers d)((c, ''MarketOrders'') \<mapsto> cachedUntil sh)))
   \<and> (outcome (run_market_orders api sv clock invalidates c d) \<noteq> Done \<longrightarrow>
      timers (final_db (run_market_orders api sv clock invalidates c d)) = timers d)"
proof (cases "characters d c")
  case None
  then show ?thesis by (simp add: run_market_orders_def)
next
  case (Some ch)
  note ch = this
  show ?thesis
  proof (cases "valid_apikey d ch")
    case None
    with ch show ?thesis by (simp add: run_market_orders_def)
  next
    case (Some kk)
    obtain k key where kk: "kk = (k, key)" by (cases kk)
    show ?thesis
    proof (cases "api key c")
      case (Inl e)
      with ch Some kk show ?thesis
        by (simp add: run_market_orders_def handle_api_exception_timers)
    next
      case (Inr sh)
      obtain ex d' where imp: "import_orders sv clock c 0 (rows sh) d = (ex, d')"
        by (cases "import_orders sv clock c 0 (rows sh) d")
      have t: "timers d' = timers d" using imp by (rule import_orders_timers)
      let ?log = "[\<lparr>cursor = None, storage = d, response = Inr sh\<rparr>]"
      have r: "run_market_orders api sv clock invalidates c d
          = finish_walk c ''MarketOrders'' (ex, sh, d', ?log)"
        using ch Some kk Inr imp by (simp add: run_market_orders_def)
      show ?thesis
      proof (cases "outcome (finish_walk c ''MarketOrders'' (ex, sh, d', ?log)) = Done")
        case True
        from finish_walk_Done_db[OF True] t True show ?thesis
          unfolding r by (simp add: finish_walk_fetches)
      next
        case False
        from finish_walk_not_Done_db[OF False] t False show ?thesis
          unfolding r by simp
      qed
    qed
  qed
qed

lemmas order_defs =
  listed_orders_run_def refused_orders_run_def research_run_def run_market_orders_def
  run_research_def orders_db_def orders_api_def research_api_def unavailable_api_def
  wall_clock_def order_row_def new_order_def save_character_order_def delete_research_def
  new_research_def

text \<open>
  Claim C3. After a run of the wallet-transactions walker, the wallet-journal walker or the
  market-orders task that completes, the timers are those of the start with the timer of
  (character, stream) set to \<^verbatim>\<open>cachedUntil\<close> of the last request of the run, which was answered
  with a sheet. After a run that does not complete, be it stopped by an error of the remote
  service at the first request or at a later one or by any other exception, the timers are
  those of the start.
\<close>

theorem timer_set_from_last_page:
  "(run_wallet_transactions fuel api sv invalidates c d = Some r \<longrightarrow>
      (outcome r = Done \<longrightarrow>
         fetches r \<noteq> [] \<and>
         (\<exists>sh. response (last (fetches r)) = Inr sh \<and>
               timers (final_db r) = (timers d)((c, ''WalletTransactions'') \<mapsto> cachedUntil sh)))
      \<and> (outcome r \<noteq> Done \<longrightarrow> timers (final_db r) = timers d))
   \<and> (run_wallet_journal fuel api' sv' invalidates c d = Some r' \<longrightarrow>
      (outcome r' = Done \<longrightarrow>
         fetches r' \<noteq> [] \<and>
         (\<exists>sh. response (last (fetches r')) = Inr sh \<and>
               timers (final_db r') = (timers d)((c, ''WalletJournal'') \<mapsto> cachedUntil sh)))
      \<and> (outcome r' \<noteq> Done \<longrightarrow> timers (final_db r') = timers d))
   \<and> (outcome (run_market_orders api'' sv'' clock invalidates c d) = Done \<longrightarrow>
      (\<exists>f sh. fetches (run_market_orders api'' sv'' clock invalidates c d) = [f]
          \<and> response f = Inr sh
          \<and> timers (final_db (run_market_orders api'' sv'' clock invalidates c d))
              = (timers d)((c, ''MarketOrders'') \<mapsto> cachedUntil sh)))
   \<and> (outcome (run_market_orders api'' sv'' clock invalidates c d) \<noteq> Done \<longrightarrow>
      timers (final_db (run_market_orders api'' sv'' clock invalidates c d)) = timers d)"
  using run_wallet_transactions_timer[of fuel api sv invalidates c d r]
    run_wallet_journal_timer[of fuel api' sv' invalidates c d r']
    run_market_orders_timer[of api'' sv'' clock invalidates c d]
  by blast

text \<open>Witness for C3: completed runs of the three tasks, and runs stopped by the remote
  service at the first and at the second request.\<close>

theorem timer_set_from_last_page_witness:
  "fresh_transactions_run = Some (the fresh_transactions_run)
   \<and> outcome (the fresh_transactions_run) = Done
   \<and> map (map_sum id cachedUntil \<circ> response) (fetches (the fresh_transactions_run))
        = [Inr 1000, Inr 1001]
   \<and> timers history_db (1, ''WalletTransactions'') = Some 10
   \<and> timers (final_db (the fresh_transactions_run)) (1, ''WalletTransactions'') = Some 1001
   \<and> fresh_journal_run = Some (the fresh_journal_run)
   \<and> outcome (the fresh_journal_run) = Done
   \<and> timers (final_db (the fresh_journal_run)) (1, ''WalletJournal'') = Some 1001
   \<and> refused_transactions_run = Some (the refused_transactions_run)
   \<and> outcome (the refused_transactions_run) = AbortedApi TransientError
   \<and> timers (final_db (the refused_transactions_run)) = timers history_db
   \<and> aborted_journal_run = Some (the aborted_journal_run)
   \<and> outcome (the aborted_journal_run) = Raised (EveapiError TransientError)
   \<and> timers (final_db (the aborted_journal_run)) = timers history_db
   \<and> outcome listed_orders_run = Done
   \<and> timers (final_db listed_orders_run) (1, ''MarketOrders'') = Some 2000
   \<and> outcome refused_orders_run = AbortedApi AuthenticationError
   \<and> timers (final_db refused_orders_run) = timers orders_db"
proof -
  have n: "fresh_transactions_run \<noteq> None" "fresh_journal_run \<noteq> None"
    "refused_transactions_run \<noteq> None" "aborted_journal_run \<noteq> None"
    by (simp_all add: run_defs example_defs walker_defs numeral_3_eq_3)
  have o: "outcome (the fresh_transactions_run) = Done" "outcome (the fresh_journal_run) = Done"
    "outcome (the refused_transactions_run) = AbortedApi TransientError"
    "outcome (the aborted_journal_run) = Raised (EveapiError TransientError)"
    by (simp_all add: run_defs example_defs walker_defs numeral_3_eq_3)
  have om: "outcome listed_orders_run = Done"
    "outcome refused_orders_run = AbortedApi AuthenticationError"
    by (simp_all add: order_defs example_defs walker_defs)
  have l: "map (map_sum id cachedUntil \<circ> response) (fetches (the fresh_transactions_run))
        = [Inr 1000, Inr 1001]"
    by (simp add: run_defs example_defs walker_defs numeral_3_eq_3)
  have last: "map_sum id cachedUntil (response (last (fetches (the fresh_transactions_run)))) = Inr 1001"
    by (simp add: run_defs example_defs walker_defs numeral_3_eq_3)
  have lj: "map_sum id cachedUntil (response (last (fetches (the fresh_journal_run)))) = Inr 1001"
    by (simp add: run_defs example_defs walker_defs numeral_3_eq_3)
  have lm: "map (map_sum id cachedUntil \<circ> response) (fetches listed_orders_run) = [Inr 2000]"
    by (simp add: order_defs example_defs walker_defs)
  have s1: "run_wallet_transactions 3 (pages_api [[txn 103 1003 34, txn 102 1002 34]]) accept_all
       never_invalidate 1 history_db = Some (the fresh_transactions_run)"
    using n by (simp add: fresh_transactions_run_def)
  have s2: "run_wallet_journal 3 (pages_api [[jrow 103 1003 10, jrow 102 1002 10]]) accept_all
       never_invalidate 1 history_db = Some (the fresh_journal_run)"
    using n by (simp add: fresh_journal_run_def)
  note t1 = timer_set_from_last_page[of 3 "pages_api [[txn 103 1003 34, txn 102 1002 34]]"
      accept_all never_invalidate 1 history_db "the fresh_transactions_run"
      "pages_api [[jrow 103 1003 10, jrow 102 1002 10]]" accept_all "the fresh_journal_run"]
  from t1 s1 o(1) obtain sh where
    sh: "response (last (fetches (the fresh_transactions_run))) = Inr sh"
    "timers (final_db (the fresh_transactions_run))
       = (timers history_db)((1, ''WalletTransactions'') \<mapsto> cachedUntil sh)"
    by blast
  with last have a: "timers (final_db (the fresh_transactions_run)) (1, ''WalletTransactions'') = Some 1001"
    by simp
  from t1 s2 o(2) obtain sh' where
    sh': "response (last (fetches (the fresh_journal_run))) = Inr sh'"
    "timers (final_db (the fresh_journal_run))
       = (timers history_db)((1, ''WalletJournal'') \<mapsto> cachedUntil sh')"
    by blast
  with lj have b: "timers (final_db (the fresh_journal_run)) (1, ''WalletJournal'') = Some 1001"
    by simp
  have s3: "run_wallet_transactions 3 (failing_api [] 0) accept_all never_invalidate 1 history_db
      = Some (the refused_transactions_run)"
    using n by (simp add: refused_transactions_run_def)
  have s4: "run_wallet_journal 3 (failing_api [[jrow 103 1003 10, jrow 102 1002 10]] 1) accept_all
       never_invalidate 1 history_db = Some (the aborted_journal_run)"
    using n by (simp add: aborted_journal_run_def)
  note t2 = timer_set_from_last_page[of 3 "failing_api [] 0"
      accept_all never_invalidate 1 history_db "the refused_transactions_run"
      "failing_api [[jrow 103 1003 10, jrow 102 1002 10]] 1" accept_all "the aborted_journal_run"]
  have c: "timers (final_db (the refused_transactions_run)) = timers history_db"
    using t2 s3 o(3) by simp
  have d: "timers (final_db (the aborted_journal_run)) = timers history_db"
    using t2 s4 o(4) by simp
  have e: "timers history_db (1, ''WalletTransactions'') = Some 10"
    by (simp add: example_defs)
  note t3 = timer_set_from_last_page[where c = 1 and d = orders_db
      and api'' = "orders_api [order_row 7001 60003760]" and sv'' = accept_all
      and clock = wall_clock and invalidates = never_invalidate]
  from t3 om(1) obtain f shm where
    shm: "fetches listed_orders_run = [f]" "response f = Inr shm"
    "timers (final_db listed_orders_run) = (timers orders_db)((1, ''MarketOrders'') \<mapsto> cachedUntil shm)"
    unfolding listed_orders_run_def by blast
  with lm have g: "timers (final_db listed_orders_run) (1, ''MarketOrders'') = Some 2000"
    by simp
  note t4 = timer_set_from_last_page[where c = 1 and d = orders_db
      and api'' = unavailable_api and sv'' = accept_all
      and clock = wall_clock and invalidates = never_invalidate]
  have h: "timers (final_db refused_orders_run) = timers orders_db"
    using t4 om(2) unfolding refused_orders_run_def by simp
  show ?thesis using n o om l a b c d e g h by simp
qed

text \<open>Witness for C9: the stored job of character 1 is replaced by the two jobs of the
  sheet, the job of character 2 stays.\<close>

theorem research_full_replacement_witness:
  "outcome research_run = Done
   \<and> researches orders_db
       = [\<lparr>rs_character = 1, agent_id = 5, skill_id = 6, start_date = 0\<rparr>,
          \<lparr>rs_character = 2, agent_id = 7, skill_id = 8, start_date = 0\<rparr>]
   \<and> researches (final_db research_run)
       = [\<lparr>rs_character = 2, agent_id = 7, skill_id = 8, start_date = 0\<rparr>,
          \<lparr>rs_character = 1, agent_id = 30, skill_id = 11, start_date = 100\<rparr>,
          \<lparr>rs_character = 1, agent_id = 31, skill_id = 12, start_date = 200\<rparr>]"
proof -
  have o: "outcome (run_research research_api accept_all never_invalidate 1 orders_db) = Done"
    by (simp add: order_defs example_defs walker_defs)
  from research_full_replacement[OF o] obtain ch k key sh where
    api: "research_api key 1 = Inr sh"
    and rs: "researches (final_db (run_research research_api accept_all never_invalidate 1 orders_db))
        = filter (\<lambda>r. rs_character r \<noteq> 1) (researches orders_db) @ map (new_research 1) (rows sh)"
    by blast
  from api have "rows sh = [\<lparr>agentID = 30, skillTypeID = 11, researchStartDate = 100\<rparr>,
                  \<lparr>agentID = 31, skillTypeID = 12, researchStartDate = 200\<rparr>]"
    by (auto simp: research_api_def)
  with rs o show ?thesis
    by (simp add: research_run_def orders_db_def base_db_def new_research_def)
qed

end
